theory Spec2Isabelle
  imports Complex_Main
begin

section \<open>HistoryTracker: snapshot-based undo/redo\<close>

text \<open>
  \<^verbatim>\<open>src/app/ts/stores/dataStructures/HistoryTracker.ts\<close>. The class is generic in the
  snapshot type. A JavaScript value of that type may be \<^verbatim>\<open>null\<close>, and \<^verbatim>\<open>undo\<close> and
  \<^verbatim>\<open>redo\<close> return \<^verbatim>\<open>null\<close> as their sentinel, so a snapshot value is an
  \<open>'s option\<close> with \<open>None\<close> for \<^verbatim>\<open>null\<close>. The two private arrays are the two
  fields of the record; every method takes the tracker and returns the updated one.
\<close>

record 's HistoryTracker =
  undoHistory :: "'s option list"
  redoHistory :: "'s option list"

text \<open>
  \<^verbatim>\<open>Array.prototype.splice(start, 1)\<close> for \<open>0 \<le> start < length\<close>: the array without the
  element at \<open>start\<close>, and the removed element.
\<close>

definition splice1 :: "nat \<Rightarrow> 'a list \<Rightarrow> 'a list \<times> 'a" where
  "splice1 start xs = (take start xs @ drop (Suc start) xs, xs ! start)"

definition HistoryTracker_new :: "'s HistoryTracker" where
  "HistoryTracker_new = \<lparr>undoHistory = [], redoHistory = []\<rparr>"

definition add :: "'s option \<Rightarrow> 's HistoryTracker \<Rightarrow> 's HistoryTracker" where
  "add item h = h\<lparr>undoHistory := undoHistory h @ [item], redoHistory := []\<rparr>"

definition undo :: "'s option \<Rightarrow> 's HistoryTracker \<Rightarrow> 's option \<times> 's HistoryTracker" where
  "undo current h =
     (let lastIndex = int (length (undoHistory h)) - 1 in
      if lastIndex \<ge> 0 then
        (let (rest, lastItem) = splice1 (nat lastIndex) (undoHistory h) in
         (lastItem, h\<lparr>undoHistory := rest, redoHistory := redoHistory h @ [current]\<rparr>))
      else (None, h))"

definition redo :: "'s option \<Rightarrow> 's HistoryTracker \<Rightarrow> 's option \<times> 's HistoryTracker" where
  "redo current h =
     (let lastIndex = int (length (redoHistory h)) - 1 in
      if lastIndex \<ge> 0 then
        (let (rest, lastItem) = splice1 (nat lastIndex) (redoHistory h) in
         (lastItem, h\<lparr>redoHistory := rest, undoHistory := undoHistory h @ [current]\<rparr>))
      else (None, h))"

definition canUndo :: "'s HistoryTracker \<Rightarrow> bool" where
  "canUndo h = (length (undoHistory h) > 0)"

definition canRndo :: "'s HistoryTracker \<Rightarrow> bool" where
  "canRndo h = (length (redoHistory h) > 0)"

definition reset :: "'s HistoryTracker \<Rightarrow> 's HistoryTracker" where
  "reset h = h\<lparr>undoHistory := [], redoHistory := []\<rparr>"

section \<open>JavaScript values\<close>

text \<open>A value that may be \<^verbatim>\<open>undefined\<close> or \<^verbatim>\<open>null\<close>.\<close>

datatype 'a js = Undefined | Null | Val 'a

text \<open>\<^verbatim>\<open>Array.prototype.indexOf\<close>: the first index of the element, or \<open>-1\<close>.\<close>

fun indexOf :: "'a list \<Rightarrow> 'a \<Rightarrow> int" where
  "indexOf [] x = - 1"
| "indexOf (y # ys) x =
     (if y = x then 0 else (let r = indexOf ys x in if r < 0 then - 1 else r + 1))"

section \<open>LabelingStore\<close>

text \<open>
  \<^verbatim>\<open>src/unnamed/part_003\<close> (the labeling store). Its methods are functions from the
  store to the updated store. Calls of \<^verbatim>\<open>projectStore.recordLabelingSnapshot()\<close> act on
  another store and are left out.
\<close>

record Label =
  timestampStart :: real
  timestampEnd :: real
  className :: string
  state :: nat
  suggestionConfidence :: real
  suggestionGeneration :: int

text \<open>
  Modelled from the spec: \<^verbatim>\<open>TimeRangeIndex\<close> (\<^verbatim>\<open>stores/dataStructures/TimeRangeIndex\<close>)
  is not among the sources. The spec describes it as a collection of interval-tagged
  items with add, remove, clear, has and iteration, where labels may overlap or be
  duplicated. It is the list of its items; \<open>forEach\<close> visits every item once and
  \<open>remove\<close> takes one occurrence of the item out. Labels are compared by their fields:
  \<^verbatim>\<open>removeClass\<close> removes every label it collected, so that it leaves the same labels
  whether two labels with equal fields are told apart or not.
\<close>

type_synonym 'a TimeRangeIndex = "'a list"

definition TimeRangeIndex_remove :: "'a \<Rightarrow> 'a TimeRangeIndex \<Rightarrow> 'a TimeRangeIndex" where
  "TimeRangeIndex_remove x idx = remove1 x idx"

definition TimeRangeIndex_forEach :: "('a \<Rightarrow> 's \<Rightarrow> 's) \<Rightarrow> 'a TimeRangeIndex \<Rightarrow> 's \<Rightarrow> 's" where
  "TimeRangeIndex_forEach f idx s = fold f idx s"

subsection \<open>The class-to-colour object\<close>

text \<open>
  \<^verbatim>\<open>classColormap\<close> is a plain object: \<^verbatim>\<open>updateColors\<close> creates it as \<^verbatim>\<open>{}\<close>, and
  \<^verbatim>\<open>loadState\<close> takes it from the parsed project file. Reading \<^verbatim>\<open>classColormap[name]\<close>
  gives the object's own property of that name and, when it has none, what it inherits
  from \<^verbatim>\<open>Object.prototype\<close>: a function under each of the names below, and under
  \<^verbatim>\<open>__proto__\<close> the prototype itself, through its getter.

  A value read from the object, and therefore an entry of \<^verbatim>\<open>classColors\<close>, is
  \<^verbatim>\<open>undefined\<close>, \<^verbatim>\<open>null\<close>, a string, or such an inherited object. \<open>Inherited\<close> as the
  value of the class or the property named \<open>c\<close> is the object that
  \<^verbatim>\<open>Object.prototype\<close> holds under the name \<open>c\<close>: by its declared type the object maps
  names to strings, and \<^verbatim>\<open>updateColors\<close> stores under a name only the value it has
  read under that name. The inherited objects are truthy and differ from every string;
  those of two different names are two different objects (\<open>sameColor\<close> is \<^verbatim>\<open>===\<close> on
  the colours of two classes). A string is truthy when it is not empty.
\<close>

datatype cval = Str string | Inherited

fun truthy :: "cval js \<Rightarrow> bool" where
  "truthy (Val (Str s)) = (s \<noteq> [])"
| "truthy (Val Inherited) = True"
| "truthy Undefined = False"
| "truthy Null = False"

definition sameColor :: "string \<Rightarrow> cval js \<Rightarrow> string \<Rightarrow> cval js \<Rightarrow> bool" where
  "sameColor c v c' v' = (v = v' \<and> (v = Val Inherited \<longrightarrow> c = c'))"

definition objectPrototypeKeys :: "string list" where
  "objectPrototypeKeys =
     [''constructor'', ''__defineGetter__'', ''__defineSetter__'', ''hasOwnProperty'',
      ''__lookupGetter__'', ''__lookupSetter__'', ''isPrototypeOf'',
      ''propertyIsEnumerable'', ''toString'', ''valueOf'', ''__proto__'',
      ''toLocaleString'']"

text \<open>
  The object: its own properties (\<open>None\<close> where it has no own property of that name)
  and whether its prototype is \<^verbatim>\<open>Object.prototype\<close> or \<^verbatim>\<open>null\<close>.
\<close>

record Colormap =
  own :: "string \<Rightarrow> cval js option"
  hasObjectPrototype :: bool

definition emptyObject :: Colormap where
  "emptyObject = \<lparr>own = (\<lambda>_. None), hasObjectPrototype = True\<rparr>"

definition getProp :: "Colormap \<Rightarrow> string \<Rightarrow> cval js" where
  "getProp obj name =
     (case own obj name of
        Some v \<Rightarrow> v
      | None \<Rightarrow>
          if hasObjectPrototype obj \<and> name \<in> set objectPrototypeKeys then Val Inherited
          else Undefined)"

text \<open>
  The assignment \<^verbatim>\<open>classColormap[name] = v\<close>. It creates or overwrites an own property,
  except under the name \<^verbatim>\<open>__proto__\<close> when the object has no own property of that name
  and inherits the setter of \<^verbatim>\<open>Object.prototype\<close>: the setter makes \<^verbatim>\<open>null\<close> or an
  object the new prototype (the object here is \<^verbatim>\<open>Object.prototype\<close>, which the object
  has already) and ignores every other value.
\<close>

definition setProp :: "Colormap \<Rightarrow> string \<Rightarrow> cval js \<Rightarrow> Colormap" where
  "setProp obj name v =
     (if name = ''__proto__'' \<and> own obj name = None \<and> hasObjectPrototype obj then
        (case v of
           Null \<Rightarrow> obj\<lparr>hasObjectPrototype := False\<rparr>
         | Val Inherited \<Rightarrow> obj
         | Val (Str s) \<Rightarrow> obj
         | Undefined \<Rightarrow> obj)
      else obj\<lparr>own := (own obj)(name \<mapsto> v)\<rparr>)"

subsection \<open>The store\<close>

text \<open>
  \<open>classColormap\<close> is \<^verbatim>\<open>undefined\<close> until the first \<^verbatim>\<open>updateColors\<close>.
  \<open>alignedDatasetField\<close> is the private \<^verbatim>\<open>_alignedDataset\<close>, of a dataset type \<open>'d\<close>.
\<close>

record 'd LabelingStore =
  labelsIndex :: "Label TimeRangeIndex"
  classes :: "string list"
  classColors :: "cval js list"
  classColormap :: "Colormap js"
  alignedDatasetField :: "'d js"

definition colorbrewer6 :: "string list" where
  "colorbrewer6 =
     [''#a6cee3'', ''#b2df8a'', ''#fb9a99'', ''#fdbf6f'', ''#cab2d6'', ''#ffff99'']"

definition d3category20 :: "string list" where
  "d3category20 =
     [''#1f77b4'', ''#aec7e8'', ''#ff7f0e'', ''#ffbb78'', ''#2ca02c'',
      ''#98df8a'', ''#d62728'', ''#ff9896'', ''#9467bd'', ''#c5b0d5'',
      ''#8c564b'', ''#c49c94'', ''#e377c2'', ''#f7b6d2'', ''#7f7f7f'',
      ''#c7c7c7'', ''#bcbd22'', ''#dbdb8d'', ''#17becf'', ''#9edae5'']"

text \<open>
  The three loops of \<^verbatim>\<open>updateColors\<close>. Each loop body is a function of the index \<open>i\<close>
  and of the pair of \<^verbatim>\<open>this.classColors\<close> and \<^verbatim>\<open>usedColors\<close>; a \<^verbatim>\<open>for\<close> loop over
  \<open>0 \<le> i < n\<close> is the \<open>fold\<close> of its body over \<open>[0..<n]\<close>. All indices are in range:
  \<^verbatim>\<open>classColors\<close> starts as \<^verbatim>\<open>classes.map(() => null)\<close>.
\<close>

definition keepColor ::
  "(string \<Rightarrow> cval js) \<Rightarrow> string list \<Rightarrow> nat \<Rightarrow> cval js list \<times> cval js list
     \<Rightarrow> cval js list \<times> cval js list" where
  "keepColor m cls i = (\<lambda>(cc, usedColors).
     if truthy (m (cls ! i)) then
       (let cc' = cc[i := m (cls ! i)] in (cc', usedColors @ [cc' ! i]))
     else (cc[i := Null], usedColors))"

text \<open>
  The inner loop over the palette, which stops at the first colour that
  \<^verbatim>\<open>usedColors.indexOf\<close> does not find.
\<close>

fun pickColor ::
  "string list \<Rightarrow> nat \<Rightarrow> cval js list \<times> cval js list
     \<Rightarrow> cval js list \<times> cval js list" where
  "pickColor [] i (cc, usedColors) = (cc, usedColors)"
| "pickColor (p # ps) i (cc, usedColors) =
     (if indexOf usedColors (Val (Str p)) < 0 then
        (let cc' = cc[i := Val (Str p)] in (cc', usedColors @ [cc' ! i]))
      else pickColor ps i (cc, usedColors))"

definition assignColor ::
  "string list \<Rightarrow> string list \<Rightarrow> nat \<Rightarrow> cval js list \<times> cval js list
     \<Rightarrow> cval js list \<times> cval js list" where
  "assignColor palette cls i = (\<lambda>(cc, usedColors).
     if cc ! i = Null then
       (if cls ! i = ''IGNORE'' then
          (let cc' = cc[i := Val (Str ''#CCC'')] in (cc', usedColors @ [cc' ! i]))
        else pickColor palette i (cc, usedColors))
     else (cc, usedColors))"

definition updateColors :: "'d LabelingStore \<Rightarrow> 'd LabelingStore" where
  "updateColors st =
     (let cls = classes st;
          cc0 = map (\<lambda>_. Null) cls;
          (cc1, used1) =
            (case classColormap st of
               Val m \<Rightarrow> fold (keepColor (getProp m) cls) [0..<length cls] (cc0, [])
             | _ \<Rightarrow> (cc0, []));
          palette = (if length cls < 6 then colorbrewer6 else d3category20);
          (cc2, used2) = fold (assignColor palette cls) [0..<length cls] (cc1, used1);
          m' = fold (\<lambda>i m. setProp m (cls ! i) (cc2 ! i)) [0..<length cc2] emptyObject
      in st\<lparr>classColors := cc2, classColormap := Val m'\<rparr>)"

definition addClass :: "string \<Rightarrow> 'd LabelingStore \<Rightarrow> 'd LabelingStore" where
  "addClass name st =
     (if indexOf (classes st) name < 0 then
        updateColors (st\<lparr>classes := classes st @ [name]\<rparr>)
      else st)"

text \<open>
  \<^verbatim>\<open>removeClass\<close> collects the labels of the class with \<^verbatim>\<open>forEach\<close> and, when there are
  any, passes each of them to \<^verbatim>\<open>remove\<close>. (\<^verbatim>\<open>Array.prototype.forEach\<close> also passes the
  index and the array; \<open>remove\<close> takes the item.) It then splices the class out of
  \<^verbatim>\<open>classes\<close> at its first index, and calls \<^verbatim>\<open>updateColors\<close> only when the class was
  in the list.
\<close>

definition removeClass :: "string \<Rightarrow> 'd LabelingStore \<Rightarrow> 'd LabelingStore" where
  "removeClass name st =
     (let toRemove =
            TimeRangeIndex_forEach
              (\<lambda>label acc. if className label = name then acc @ [label] else acc)
              (labelsIndex st) [];
          st1 = (if length toRemove > 0
                 then st\<lparr>labelsIndex := fold TimeRangeIndex_remove toRemove (labelsIndex st)\<rparr>
                 else st);
          index = indexOf (classes st1) name
      in if index \<ge> 0 then
           updateColors (st1\<lparr>classes := fst (splice1 (nat index) (classes st1))\<rparr>)
         else st1)"

text \<open>
  The getter \<^verbatim>\<open>alignedDataset\<close>. It reads \<^verbatim>\<open>projectUiStore.currentTab\<close> and
  \<^verbatim>\<open>projectStore.tracks\<close>, which are arguments here, and returns the dataset together
  with the store. \<^verbatim>\<open>makeNewAlignedDataset\<close> reads its argument only and builds a new
  dataset from it in floating-point arithmetic; the getter is stated for any such
  function \<open>mk\<close>.
\<close>

definition alignedDataset ::
  "('t list \<Rightarrow> 'd) \<Rightarrow> string \<Rightarrow> 't list \<Rightarrow> 'd LabelingStore \<Rightarrow> 'd js \<times> 'd LabelingStore" where
  "alignedDataset mk tab tracks st =
     (if tab \<noteq> ''labeling'' then (alignedDatasetField st, st)
      else (let st' = st\<lparr>alignedDatasetField := Val (mk tracks)\<rparr>
            in (alignedDatasetField st', st')))"

subsection \<open>Notions used to state what updateColors assigns\<close>

text \<open>
  \<open>priorColor st c\<close> is what \<^verbatim>\<open>this.classColormap[c]\<close> reads before the call, and
  \<^verbatim>\<open>undefined\<close> when there is no \<^verbatim>\<open>classColormap\<close>. \<open>kept m c\<close> is the entry the first
  loop leaves for class \<open>c\<close>. \<open>chosen P c v U\<close> is the entry the second loop leaves for a
  class \<open>c\<close> whose entry was \<open>v\<close>, with palette \<open>P\<close> and the set \<open>U\<close> of colours in
  \<^verbatim>\<open>usedColors\<close>.
\<close>

definition priorColor :: "'d LabelingStore \<Rightarrow> string \<Rightarrow> cval js" where
  "priorColor st c = (case classColormap st of Val m \<Rightarrow> getProp m c | _ \<Rightarrow> Undefined)"

definition kept :: "(string \<Rightarrow> cval js) \<Rightarrow> string \<Rightarrow> cval js" where
  "kept m c = (if truthy (m c) then m c else Null)"

definition chosen :: "string list \<Rightarrow> string \<Rightarrow> cval js \<Rightarrow> cval js set \<Rightarrow> cval js" where
  "chosen P c v U =
     (if v \<noteq> Null then v
      else if c = ''IGNORE'' then Val (Str ''#CCC'')
      else (case find (\<lambda>p. Val (Str p) \<notin> U) P of Some p \<Rightarrow> Val (Str p) | None \<Rightarrow> Null))"

subsection \<open>Example stores\<close>

definition three_classes :: "unit LabelingStore" where
  "three_classes =
     \<lparr>labelsIndex = [], classes = [''IGNORE'', ''A'', ''B''], classColors = [],
      classColormap =
        Val \<lparr>own = (\<lambda>_. None)(''B'' \<mapsto> Val (Str ''#a6cee3'')), hasObjectPrototype = True\<rparr>,
      alignedDatasetField = Null\<rparr>"

definition many_classes :: "unit LabelingStore" where
  "many_classes =
     \<lparr>labelsIndex = [],
      classes = [''constructor'',
                 ''c1'', ''c2'', ''c3'', ''c4'', ''c5'', ''c6'', ''c7'', ''c8'', ''c9'', ''c10'',
                 ''c11'', ''c12'', ''c13'', ''c14'', ''c15'', ''c16'', ''c17'', ''c18'', ''c19'',
                 ''c20'', ''c21''],
      classColors = [],
      classColormap =
        Val \<lparr>own = (\<lambda>_. None)(''c1'' \<mapsto> Val (Str [])), hasObjectPrototype = True\<rparr>,
      alignedDatasetField = Null\<rparr>"

definition dup_classes :: "unit LabelingStore" where
  "dup_classes =
     \<lparr>labelsIndex = [], classes = [''A'', ''A'', ''B'', ''C''], classColors = [],
      classColormap =
        Val \<lparr>own = (\<lambda>_. None)(''B'' \<mapsto> Val (Str ''#CCC'')), hasObjectPrototype = True\<rparr>,
      alignedDatasetField = Null\<rparr>"

definition proto_class :: "unit LabelingStore" where
  "proto_class =
     \<lparr>labelsIndex = [], classes = [''__proto__''], classColors = [],
      classColormap = Undefined, alignedDatasetField = Null\<rparr>"

definition grey_classes :: "unit LabelingStore" where
  "grey_classes =
     \<lparr>labelsIndex = [], classes = [''B'', ''C''], classColors = [],
      classColormap =
        Val \<lparr>own = (\<lambda>_. None)(''B'' \<mapsto> Val (Str ''#CCC'')), hasObjectPrototype = True\<rparr>,
      alignedDatasetField = Null\<rparr>"

definition labelled_store :: "nat LabelingStore" where
  "labelled_store =
     \<lparr>labelsIndex =
        [\<lparr>timestampStart = 0, timestampEnd = 1, className = ''A'', state = 0,
          suggestionConfidence = 0, suggestionGeneration = 0\<rparr>,
         \<lparr>timestampStart = 1, timestampEnd = 2, className = ''B'', state = 0,
          suggestionConfidence = 0, suggestionGeneration = 0\<rparr>,
         \<lparr>timestampStart = 2, timestampEnd = 3, className = ''A'', state = 1,
          suggestionConfidence = 0, suggestionGeneration = 0\<rparr>],
      classes = [''IGNORE'', ''A'', ''B''], classColors = [],
      classColormap = Undefined, alignedDatasetField = Val 7\<rparr>"

section \<open>AlignmentView: mouse gestures\<close>

text \<open>
  \<^verbatim>\<open>src/unnamed/part_001\<close> (the alignment view). The stores it calls
  (\<^verbatim>\<open>projectUiStore\<close>, \<^verbatim>\<open>alignmentStore\<close>, \<^verbatim>\<open>projectStore\<close>) are not among the sources, so a
  handler is a function from what it reads to its new state and the list of store calls
  it makes, in order. Numbers are reals. A track's \<^verbatim>\<open>id\<close> is the field \<open>trackId\<close>. A
  marker is an object: \<open>ident\<close> is its identity, and \<^verbatim>\<open>===\<close> on markers compares
  identities.
\<close>

datatype jsError = TypeError

record TimeSeries =
  ts_timestampStart :: real
  ts_timestampEnd :: real

record Track =
  trackId :: string
  timeSeries :: "TimeSeries list"
  isAlignedToReferenceTrack :: bool

record Marker =
  ident :: nat
  localTimestamp :: real
  track :: Track

text \<open>
  \<^verbatim>\<open>new PanZoomParameters(rangeStart, pixelsPerSecond)\<close> with its two arguments. The
  first is a difference with a quotient; \<open>None\<close> stands for a value that is not a finite
  number (the divisor was 0). The second may be \<^verbatim>\<open>null\<close>.
\<close>

record PanZoomParameters =
  rangeStart :: "real option"
  pixelsPerSecond :: "real js"

datatype StoreCall =
    SetReferenceTrackPanZoom PanZoomParameters
  | SetTrackPanZoom Track PanZoomParameters
  | AddMarker Marker
  | SelectMarker Marker
  | AddMarkerCorrespondence Marker "Marker js"
  | SelectMarkerCorrespondence

text \<open>
  \<open>SelectMarkerCorrespondence\<close> is \<^verbatim>\<open>selectMarkerCorrespondence(corr)\<close> for the value
  \<^verbatim>\<open>corr\<close> that the call of \<^verbatim>\<open>addMarkerCorrespondence\<close> just before it returned.

  What a handler reads of a mouse event: the pointer position, and the two attributes of
  the event's target element that \<^verbatim>\<open>findCandidateMarker\<close> reads; \<open>targetMarkerIndex\<close> is
  \<^verbatim>\<open>parseInt(target.getAttribute('data-marker-index'), 10)\<close>, with \<open>None\<close> for \<^verbatim>\<open>NaN\<close>.
\<close>

record MouseEvent =
  clientX :: real
  clientY :: real
  targetDataType :: "string js"
  targetMarkerIndex :: "int option"

text \<open>
  What a handler reads of the stores and of the page when an event arrives:
  \<^verbatim>\<open>alignmentStore.markers\<close>, \<^verbatim>\<open>projectStore.tracks\<close>, the pan-zoom values of
  \<^verbatim>\<open>projectUiStore\<close>, and the corner of \<^verbatim>\<open>refs.interactionRect\<close>.
\<close>

record World =
  markers :: "Marker list"
  tracks :: "Track list"
  trackRangeStart :: "Track \<Rightarrow> real"
  referenceRangeStart :: real
  referencePixelsPerSecond :: real
  rectLeft :: real
  rectTop :: real

text \<open>
  Modelled from the spec: \<^verbatim>\<open>startDragging\<close> (\<^verbatim>\<open>stores/utils\<close>) is not among the sources.
  The spec says that a drag installs temporary global listeners for the duration of the
  gesture and removes them on release: the move callback runs for every move event, in
  order, and then the up callback runs once. A callback returns its new state and the
  store calls it made, or the exception it did not catch; the run is followed up to the
  first such exception.
\<close>

fun dragMoves ::
  "('e \<Rightarrow> 's \<Rightarrow> jsError + 's \<times> StoreCall list) \<Rightarrow> 'e list \<Rightarrow> 's
     \<Rightarrow> jsError + 's \<times> StoreCall list" where
  "dragMoves move [] s = Inr (s, [])"
| "dragMoves move (e # es) s =
     (case move e s of
        Inl err \<Rightarrow> Inl err
      | Inr (s1, cs1) \<Rightarrow>
          (case dragMoves move es s1 of
             Inl err \<Rightarrow> Inl err
           | Inr (s2, cs2) \<Rightarrow> Inr (s2, cs1 @ cs2)))"

definition startDragging ::
  "('e \<Rightarrow> 's \<Rightarrow> jsError + 's \<times> StoreCall list) \<Rightarrow> ('u \<Rightarrow> 's \<Rightarrow> jsError + 's \<times> StoreCall list)
     \<Rightarrow> 'e list \<Rightarrow> 'u \<Rightarrow> 's \<Rightarrow> jsError + 's \<times> StoreCall list" where
  "startDragging move up moves upEvent s =
     (case dragMoves move moves s of
        Inl err \<Rightarrow> Inl err
      | Inr (s1, cs1) \<Rightarrow>
          (case up upEvent s1 of
             Inl err \<Rightarrow> Inl err
           | Inr (s2, cs2) \<Rightarrow> Inr (s2, cs1 @ cs2)))"

subsection \<open>onTrackMouseDown\<close>

text \<open>
  The variables the two callbacks close over: the arguments \<^verbatim>\<open>track\<close>, \<^verbatim>\<open>time\<close> and
  \<^verbatim>\<open>pps\<close>, the constants \<^verbatim>\<open>x0\<close>, \<^verbatim>\<open>rangeStart\<close> and \<^verbatim>\<open>referenceRangeStart\<close> read at the
  press, and the flag \<^verbatim>\<open>moved\<close>.
\<close>

record TrackDrag =
  dragTrack :: Track
  dragTime :: real
  dragPps :: real
  x0 :: real
  dragRangeStart :: real
  dragReferenceRangeStart :: real
  moved :: bool

definition jsDivide :: "real \<Rightarrow> real \<Rightarrow> real option" where
  "jsDivide a b = (if b = 0 then None else Some (a / b))"

text \<open>
  The press. \<^verbatim>\<open>track.timeSeries[0]\<close> of a track without time series is \<^verbatim>\<open>undefined\<close>, and
  reading its field throws. \<open>Inr None\<close> is the early \<^verbatim>\<open>return\<close>: no drag starts.
\<close>

definition onTrackMouseDown ::
  "MouseEvent \<Rightarrow> Track \<Rightarrow> real \<Rightarrow> real \<Rightarrow> World \<Rightarrow> jsError + TrackDrag option" where
  "onTrackMouseDown event trk time pps w =
     (case timeSeries trk of
        [] \<Rightarrow> Inl TypeError
      | ts0 # _ \<Rightarrow>
          if time < ts_timestampStart ts0 \<or> time > ts_timestampEnd ts0 then Inr None
          else Inr (Some \<lparr>dragTrack = trk, dragTime = time, dragPps = pps,
                           x0 = clientX event,
                           dragRangeStart = trackRangeStart w trk,
                           dragReferenceRangeStart = referenceRangeStart w,
                           moved = False\<rparr>))"

text \<open>The call of one of the two pan-zoom setters that a move past the threshold makes.\<close>

definition panZoomCall :: "TrackDrag \<Rightarrow> World \<times> MouseEvent \<Rightarrow> StoreCall" where
  "panZoomCall g = (\<lambda>(w, mouseEvent).
     let x1 = clientX mouseEvent in
     if isAlignedToReferenceTrack (dragTrack g) then
       SetReferenceTrackPanZoom
         \<lparr>rangeStart = map_option (\<lambda>dt. dragReferenceRangeStart g - dt)
                          (jsDivide (x1 - x0 g) (referencePixelsPerSecond w)),
          pixelsPerSecond = Null\<rparr>
     else
       SetTrackPanZoom (dragTrack g)
         \<lparr>rangeStart = map_option (\<lambda>dt. dragRangeStart g - dt) (jsDivide (x1 - x0 g) (dragPps g)),
          pixelsPerSecond = Val (dragPps g)\<rparr>)"

definition onTrackMouseMove ::
  "World \<times> MouseEvent \<Rightarrow> TrackDrag \<Rightarrow> jsError + TrackDrag \<times> StoreCall list" where
  "onTrackMouseMove e g =
     (let x1 = clientX (snd e) in
      if moved g \<or> \<bar>x1 - x0 g\<bar> \<ge> 3 then
        Inr (g\<lparr>moved := True\<rparr>, [panZoomCall g e])
      else Inr (g, []))"

text \<open>
  The release. Its argument is the identity of the object that \<^verbatim>\<open>new Marker(time, track)\<close>
  allocates.
\<close>

definition onTrackMouseUp :: "nat \<Rightarrow> TrackDrag \<Rightarrow> jsError + TrackDrag \<times> StoreCall list" where
  "onTrackMouseUp fresh g =
     (if \<not> moved g then
        (let marker = \<lparr>ident = fresh, localTimestamp = dragTime g, track = dragTrack g\<rparr>
         in Inr (g, [AddMarker marker, SelectMarker marker]))
      else Inr (g, []))"

subsection \<open>startCreatingCorrespondence\<close>

datatype Knob = Top | Bottom

record AlignmentViewState =
  isCreatingCorrespondence :: "bool js"
  markerStartKnob :: "Knob js"
  markerStart :: "Marker js"
  markerTarget :: "Marker js"
  currentPosition :: "(real \<times> real) js"

text \<open>\<^verbatim>\<open>===\<close> on values that are markers, \<^verbatim>\<open>null\<close> or \<^verbatim>\<open>undefined\<close>.\<close>

fun strictEq :: "Marker js \<Rightarrow> Marker js \<Rightarrow> bool" where
  "strictEq (Val a) (Val b) = (ident a = ident b)"
| "strictEq Undefined Undefined = True"
| "strictEq Null Null = True"
| "strictEq _ _ = False"

text \<open>Reading an array at an index: \<^verbatim>\<open>undefined\<close> outside the array.\<close>

definition arrayGet :: "'a list \<Rightarrow> int \<Rightarrow> 'a js" where
  "arrayGet xs i = (if 0 \<le> i \<and> i < int (length xs) then Val (xs ! nat i) else Undefined)"

definition findCandidateMarker :: "World \<Rightarrow> MouseEvent \<Rightarrow> Marker js" where
  "findCandidateMarker w event =
     (if targetDataType event = Val ''marker'' then
        (case targetMarkerIndex event of
           Some index \<Rightarrow> arrayGet (markers w) index
         | None \<Rightarrow> Null)
      else Null)"

definition getRelativePosition :: "World \<Rightarrow> MouseEvent \<Rightarrow> real \<times> real" where
  "getRelativePosition w event = (clientX event - rectLeft w, clientY event - rectTop w)"

text \<open>\<^verbatim>\<open>tracks.map(t => t.id).indexOf(m.track.id)\<close>.\<close>

definition trackIndex :: "World \<Rightarrow> Marker \<Rightarrow> int" where
  "trackIndex w m = indexOf (map trackId (tracks w)) (trackId (track m))"

text \<open>
  The press on a knob: \<^verbatim>\<open>selectMarker\<close>, then \<^verbatim>\<open>setState\<close>, which merges the given fields
  into the state. (\<^verbatim>\<open>setState\<close> takes effect before the next event is handled.)
\<close>

definition startCreatingCorrespondence ::
  "Marker \<Rightarrow> Knob \<Rightarrow> AlignmentViewState \<Rightarrow> AlignmentViewState \<times> StoreCall list" where
  "startCreatingCorrespondence marker knob v =
     (v\<lparr>isCreatingCorrespondence := Val True, currentPosition := Null,
        markerStartKnob := Val knob, markerStart := Val marker, markerTarget := Null\<rparr>,
      [SelectMarker marker])"

text \<open>
  The move callback. \<^verbatim>\<open>this.state.markerStart.track\<close> throws when \<^verbatim>\<open>markerStart\<close> is not
  an object.
\<close>

definition correspondenceMove ::
  "Marker \<Rightarrow> World \<times> MouseEvent \<Rightarrow> AlignmentViewState
     \<Rightarrow> jsError + AlignmentViewState \<times> StoreCall list" where
  "correspondenceMove marker e v =
     (let w = fst e; moveEvent = snd e;
          candidate0 = findCandidateMarker w moveEvent;
          candidate1 = (if strictEq candidate0 (markerStart v) then Null else candidate0);
          checked =
            (case candidate1 of
               Val c \<Rightarrow>
                 (case markerStart v of
                    Val ms \<Rightarrow>
                      (let trackIndex1 = trackIndex w ms;
                           trackIndex2 = trackIndex w c
                       in if \<not> (trackIndex2 = trackIndex1 - 1 \<or> trackIndex2 = trackIndex1 + 1)
                          then Inr Null else Inr candidate1)
                  | _ \<Rightarrow> Inl TypeError)
             | _ \<Rightarrow> Inr candidate1)
      in case checked of
           Inl err \<Rightarrow> Inl err
         | Inr candidate \<Rightarrow>
             Inr (v\<lparr>isCreatingCorrespondence := Val True, markerStart := Val marker,
                    markerTarget := candidate,
                    currentPosition := Val (getRelativePosition w moveEvent)\<rparr>, []))"

definition correspondenceUp ::
  "Marker \<Rightarrow> unit \<Rightarrow> AlignmentViewState \<Rightarrow> jsError + AlignmentViewState \<times> StoreCall list" where
  "correspondenceUp marker upEvent v =
     (let lastCandidate = markerTarget v;
          v' = v\<lparr>isCreatingCorrespondence := Val False, markerStartKnob := Null,
                 currentPosition := Null, markerStart := Null, markerTarget := Null\<rparr>
      in if \<not> strictEq lastCandidate (Val marker) \<and> lastCandidate \<noteq> Null then
           Inr (v', [AddMarkerCorrespondence marker lastCandidate, SelectMarkerCorrespondence])
         else Inr (v', []))"

subsection \<open>Notions used to state the properties of the gestures\<close>

text \<open>
  \<open>candidateOK marker e t\<close>: the candidate \<open>t\<close> left by a move event \<open>e\<close> is not
  \<open>marker\<close>; if it is a marker, it is the one under the pointer and its track index is
  next to that of \<open>marker\<close>; and it is \<^verbatim>\<open>null\<close> when the marker under the pointer is on
  a track whose index is not next to it.
\<close>

definition candidateOK :: "Marker \<Rightarrow> World \<times> MouseEvent \<Rightarrow> Marker js \<Rightarrow> bool" where
  "candidateOK marker e t =
     (\<not> strictEq t (Val marker)
      \<and> (\<forall>c. t = Val c \<longrightarrow>
            findCandidateMarker (fst e) (snd e) = Val c
            \<and> \<bar>trackIndex (fst e) c - trackIndex (fst e) marker\<bar> = 1)
      \<and> (\<forall>c. findCandidateMarker (fst e) (snd e) = Val c
              \<and> \<bar>trackIndex (fst e) c - trackIndex (fst e) marker\<bar> \<noteq> 1 \<longrightarrow> t = Null))"

subsection \<open>Example tracks, markers and events\<close>

definition track_a :: Track where
  "track_a = \<lparr>trackId = ''a'', timeSeries = [\<lparr>ts_timestampStart = 0, ts_timestampEnd = 10\<rparr>],
              isAlignedToReferenceTrack = False\<rparr>"

definition track_b :: Track where
  "track_b = \<lparr>trackId = ''b'', timeSeries = [\<lparr>ts_timestampStart = 0, ts_timestampEnd = 10\<rparr>],
              isAlignedToReferenceTrack = False\<rparr>"

definition track_c :: Track where
  "track_c = \<lparr>trackId = ''c'', timeSeries = [\<lparr>ts_timestampStart = 0, ts_timestampEnd = 10\<rparr>],
              isAlignedToReferenceTrack = False\<rparr>"

definition marker_a :: Marker where
  "marker_a = \<lparr>ident = 0, localTimestamp = 1, track = track_a\<rparr>"

definition marker_b :: Marker where
  "marker_b = \<lparr>ident = 1, localTimestamp = 2, track = track_b\<rparr>"

definition marker_c :: Marker where
  "marker_c = \<lparr>ident = 2, localTimestamp = 3, track = track_c\<rparr>"

definition ex_world :: World where
  "ex_world = \<lparr>markers = [marker_a, marker_b, marker_c], tracks = [track_a, track_b, track_c],
               trackRangeStart = (\<lambda>_. 0), referenceRangeStart = 0,
               referencePixelsPerSecond = 1, rectLeft = 0, rectTop = 0\<rparr>"

definition mouseAt :: "real \<Rightarrow> MouseEvent" where
  "mouseAt x = \<lparr>clientX = x, clientY = 0, targetDataType = Null, targetMarkerIndex = None\<rparr>"

definition hover :: "int \<Rightarrow> MouseEvent" where
  "hover k = \<lparr>clientX = 0, clientY = 0, targetDataType = Val ''marker'',
              targetMarkerIndex = Some k\<rparr>"

definition initialViewState :: AlignmentViewState where
  "initialViewState = \<lparr>isCreatingCorrespondence = Undefined, markerStartKnob = Undefined,
                        markerStart = Undefined, markerTarget = Undefined,
                        currentPosition = Undefined\<rparr>"

section \<open>Properties of HistoryTracker\<close>

lemma splice1_last: "xs \<noteq> [] \<Longrightarrow> splice1 (length xs - Suc 0) xs = (butlast xs, last xs)"
  by (simp add: splice1_def butlast_conv_take last_conv_nth)

lemma undo_nonempty:
  "undoHistory h \<noteq> [] \<Longrightarrow>
   undo current h =
     (last (undoHistory h),
      h\<lparr>undoHistory := butlast (undoHistory h), redoHistory := redoHistory h @ [current]\<rparr>)"
  by (simp add: undo_def Let_def nat_diff_distrib' splice1_last)

lemma redo_nonempty:
  "redoHistory h \<noteq> [] \<Longrightarrow>
   redo current h =
     (last (redoHistory h),
      h\<lparr>redoHistory := butlast (redoHistory h), undoHistory := undoHistory h @ [current]\<rparr>)"
  by (simp add: redo_def Let_def nat_diff_distrib' splice1_last)

text \<open>
  C1. Whenever the undo history is not empty and \<open>undo current\<close> returns a snapshot
  \<open>s\<close> that is not \<^verbatim>\<open>null\<close>, the following \<open>redo s\<close> returns \<open>current\<close>, and the
  undo history and the redo history are then what they were before the undo.
\<close>

theorem undo_then_redo_roundtrip:
  assumes "undoHistory h \<noteq> []"
    and "undo current h = (s, h')"
    and "s \<noteq> None"
  shows "fst (redo s h') = current
       \<and> undoHistory (snd (redo s h')) = undoHistory h
       \<and> redoHistory (snd (redo s h')) = redoHistory h"
proof -
  from assms(1,2) have s: "s = last (undoHistory h)"
    and h': "h' = h\<lparr>undoHistory := butlast (undoHistory h),
                     redoHistory := redoHistory h @ [current]\<rparr>"
    by (simp_all add: undo_nonempty)
  have "redoHistory h' \<noteq> []" by (simp add: h')
  then show ?thesis
    using assms(1) by (simp add: redo_nonempty h' s)
qed

theorem undo_then_redo_roundtrip_witness:
  "undoHistory \<lparr>undoHistory = [Some (1::nat), Some 2], redoHistory = [Some 9]\<rparr> \<noteq> []
   \<and> undo (Some 3) \<lparr>undoHistory = [Some (1::nat), Some 2], redoHistory = [Some 9]\<rparr>
       = (Some 2, \<lparr>undoHistory = [Some 1], redoHistory = [Some 9, Some 3]\<rparr>)
   \<and> fst (redo (Some 2) \<lparr>undoHistory = [Some (1::nat)], redoHistory = [Some 9, Some 3]\<rparr>) = Some 3
   \<and> undoHistory (snd (redo (Some 2) \<lparr>undoHistory = [Some (1::nat)], redoHistory = [Some 9, Some 3]\<rparr>))
       = [Some 1, Some 2]
   \<and> redoHistory (snd (redo (Some 2) \<lparr>undoHistory = [Some (1::nat)], redoHistory = [Some 9, Some 3]\<rparr>))
       = [Some 9]"
proof -
  let ?h = "\<lparr>undoHistory = [Some (1::nat), Some 2], redoHistory = [Some 9]\<rparr>"
  let ?h' = "\<lparr>undoHistory = [Some (1::nat)], redoHistory = [Some 9, Some 3]\<rparr>"
  have a: "undoHistory ?h \<noteq> []" by simp
  have b: "undo (Some 3) ?h = (Some 2, ?h')"
    by (simp add: undo_def splice1_def Let_def)
  have c: "Some (2::nat) \<noteq> None" by simp
  show ?thesis
    using undo_then_redo_roundtrip [OF a b c] a b by simp
qed

text \<open>
  C2. For every tracker, also one whose redo history is not empty, \<open>add s\<close> appends
  \<open>s\<close> to the undo history, so that \<open>s\<close> is its last entry and \<open>canUndo\<close> holds, and
  empties the redo history, so that \<open>canRndo\<close> (the source's spelling of canRedo) is
  false.
\<close>

theorem add_appends_and_clears_redo:
  "undoHistory (add s h) = undoHistory h @ [s]
   \<and> last (undoHistory (add s h)) = s
   \<and> canUndo (add s h)
   \<and> redoHistory (add s h) = []
   \<and> \<not> canRndo (add s h)"
  by (simp add: add_def canUndo_def canRndo_def)

text \<open>
  C3. With an empty undo history \<open>undo current\<close> returns \<^verbatim>\<open>null\<close> and changes neither
  sequence (\<open>current\<close> is not pushed onto the redo history); with an empty redo history
  \<open>redo current\<close> returns \<^verbatim>\<open>null\<close> and changes neither sequence.
\<close>

theorem undo_redo_on_empty:
  "(undoHistory h = [] \<longrightarrow> undo current h = (None, h))
   \<and> (redoHistory h = [] \<longrightarrow> redo current h = (None, h))"
  by (simp add: undo_def redo_def)

theorem undo_redo_on_empty_witness:
  "undoHistory (HistoryTracker_new :: nat HistoryTracker) = []
   \<and> undo (Some 5) (HistoryTracker_new :: nat HistoryTracker) = (None, HistoryTracker_new)
   \<and> redoHistory (HistoryTracker_new :: nat HistoryTracker) = []
   \<and> redo (Some 5) (HistoryTracker_new :: nat HistoryTracker) = (None, HistoryTracker_new)"
  using undo_redo_on_empty [of "HistoryTracker_new :: nat HistoryTracker" "Some 5"]
  by (simp add: HistoryTracker_new_def)

section \<open>Properties of LabelingStore\<close>

subsection \<open>Arrays and the loops of updateColors\<close>

lemma indexOf_ge: "indexOf xs x \<ge> - 1"
  by (induction xs) (auto simp: Let_def)

lemma indexOf_neg_iff: "indexOf xs x < 0 \<longleftrightarrow> x \<notin> set xs"
  using indexOf_ge [of _ x] by (induction xs) (auto simp: Let_def)

lemma indexOf_splice1: "x \<in> set xs \<Longrightarrow> fst (splice1 (nat (indexOf xs x)) xs) = remove1 x xs"
proof (induction xs)
  case Nil then show ?case by simp
next
  case (Cons y ys)
  show ?case
  proof (cases "y = x")
    case True then show ?thesis by (simp add: splice1_def)
  next
    case False
    with Cons.prems have in_ys: "x \<in> set ys" by simp
    then have nn: "\<not> indexOf ys x < 0" by (simp add: indexOf_neg_iff)
    then have "nat (indexOf ys x + 1) = Suc (nat (indexOf ys x))" by simp
    with False nn Cons.IH [OF in_ys] show ?thesis
      by (simp add: splice1_def Let_def)
  qed
qed

lemma upd_at_length:
  "length xs = k \<Longrightarrow> k < length ys \<Longrightarrow> (xs @ drop k ys)[k := v] = (xs @ [v]) @ drop (Suc k) ys"
  by (simp add: list_update_append Cons_nth_drop_Suc [symmetric])

lemma keepColor_step:
  assumes "length xs = k" "k < length ys"
  shows "keepColor m cls k (xs @ drop k ys, u) =
         ((xs @ [kept m (cls ! k)]) @ drop (Suc k) ys, u @ filter truthy [m (cls ! k)])"
  using assms by (simp add: keepColor_def kept_def Let_def upd_at_length nth_append)

lemma keepColor_loop:
  assumes "length cc0 = length cls" "k \<le> length cls"
  shows "fold (keepColor m cls) [0..<k] (cc0, u0) =
         (map (kept m) (take k cls) @ drop k cc0, u0 @ filter truthy (map m (take k cls)))"
  using assms(2)
proof (induction k)
  case 0 then show ?case by simp
next
  case (Suc k)
  then have k: "k < length cls" by simp
  have len: "length (map (kept m) (take k cls)) = k" using k by simp
  have "fold (keepColor m cls) [0..<Suc k] (cc0, u0)
        = keepColor m cls k (map (kept m) (take k cls) @ drop k cc0,
                             u0 @ filter truthy (map m (take k cls)))"
    using Suc k by simp
  also have "\<dots> = ((map (kept m) (take k cls) @ [kept m (cls ! k)]) @ drop (Suc k) cc0,
                   (u0 @ filter truthy (map m (take k cls))) @ filter truthy [m (cls ! k)])"
    using k assms(1) by (intro keepColor_step len) simp
  finally show ?case using k by (simp add: take_Suc_conv_app_nth)
qed

lemma keepColor_loop_full:
  "fold (keepColor m cls) [0..<length cls] (map (\<lambda>_. Null) cls, []) =
     (map (kept m) cls, filter truthy (map m cls))"
  by (simp add: keepColor_loop)


lemma pickColor_find:
  "i < length cc \<Longrightarrow>
   pickColor P i (cc, u) =
     (case find (\<lambda>p. Val (Str p) \<notin> set u) P of
        Some p \<Rightarrow> (cc[i := Val (Str p)], u @ [Val (Str p)])
      | None \<Rightarrow> (cc, u))"
  by (induction P) (simp_all add: indexOf_neg_iff Let_def)

lemma assignColor_step:
  assumes "i < length cc"
  shows "assignColor P cls i (cc, u) =
           (cc[i := chosen P (cls ! i) (cc ! i) (set u)],
            if cc ! i = Null \<and> chosen P (cls ! i) (cc ! i) (set u) \<noteq> Null
            then u @ [chosen P (cls ! i) (cc ! i) (set u)] else u)"
proof (cases "cc ! i = Null")
  case True
  then have "cc[i := Null] = cc" by (metis list_update_id)
  with True assms show ?thesis
    by (auto simp: assignColor_def chosen_def Let_def pickColor_find split: option.splits)
next
  case False
  then show ?thesis by (simp add: assignColor_def chosen_def)
qed

lemma assign_loop_Suc:
  "fold (assignColor P cls) [0..<Suc k] init = assignColor P cls k (fold (assignColor P cls) [0..<k] init)"
  by simp

lemma assign_loop_frame:
  "k \<le> length cc1 \<Longrightarrow>
   length (fst (fold (assignColor P cls) [0..<k] (cc1, u1))) = length cc1
   \<and> (\<forall>j. k \<le> j \<longrightarrow> fst (fold (assignColor P cls) [0..<k] (cc1, u1)) ! j = cc1 ! j)"
proof (induction k)
  case 0 then show ?case by simp
next
  case (Suc k)
  obtain cc u where A: "fold (assignColor P cls) [0..<k] (cc1, u1) = (cc, u)"
    by (cases "fold (assignColor P cls) [0..<k] (cc1, u1)")
  with Suc have len: "length cc = length cc1" and fr: "\<forall>j. k \<le> j \<longrightarrow> cc ! j = cc1 ! j"
    by simp_all
  have k: "k < length cc" using Suc.prems len by simp
  show ?case
    using fr len by (simp add: A assignColor_step [OF k])
qed

lemma assign_loop_at:
  assumes "i < length cc1"
  shows "fst (fold (assignColor P cls) [0..<Suc i] (cc1, u1)) ! i =
         chosen P (cls ! i) (cc1 ! i) (set (snd (fold (assignColor P cls) [0..<i] (cc1, u1))))"
    and "snd (fold (assignColor P cls) [0..<Suc i] (cc1, u1)) =
         (let u = snd (fold (assignColor P cls) [0..<i] (cc1, u1)); v = chosen P (cls ! i) (cc1 ! i) (set u)
          in if cc1 ! i = Null \<and> v \<noteq> Null then u @ [v] else u)"
proof -
  obtain cc u where A: "fold (assignColor P cls) [0..<i] (cc1, u1) = (cc, u)"
    by (cases "fold (assignColor P cls) [0..<i] (cc1, u1)")
  from assign_loop_frame [of i cc1 P cls u1] assms A
  have len: "length cc = length cc1" and fr: "cc ! i = cc1 ! i" by simp_all
  have i: "i < length cc" using assms len by simp
  show "fst (fold (assignColor P cls) [0..<Suc i] (cc1, u1)) ! i =
         chosen P (cls ! i) (cc1 ! i) (set (snd (fold (assignColor P cls) [0..<i] (cc1, u1))))"
    using i fr by (simp add: A assignColor_step [OF i])
  show "snd (fold (assignColor P cls) [0..<Suc i] (cc1, u1)) =
         (let u = snd (fold (assignColor P cls) [0..<i] (cc1, u1)); v = chosen P (cls ! i) (cc1 ! i) (set u)
          in if cc1 ! i = Null \<and> v \<noteq> Null then u @ [v] else u)"
    using i fr by (auto simp: A assignColor_step [OF i] Let_def)
qed

lemma assign_loop_stable:
  assumes "j < k" "k \<le> k'" "k' \<le> length cc1"
  shows "fst (fold (assignColor P cls) [0..<k'] (cc1, u1)) ! j
       = fst (fold (assignColor P cls) [0..<k] (cc1, u1)) ! j"
  using assms(2,3)
proof (induction k' rule: dec_induct)
  case base show ?case by simp
next
  case (step m)
  obtain cc u where A: "fold (assignColor P cls) [0..<m] (cc1, u1) = (cc, u)"
    by (cases "fold (assignColor P cls) [0..<m] (cc1, u1)")
  from assign_loop_frame [of m cc1 P cls u1] step.prems A
  have len: "length cc = length cc1" by simp
  have m: "m < length cc" using step.prems len by simp
  have "j \<noteq> m" using assms(1) step.hyps by simp
  then have "fst (fold (assignColor P cls) [0..<Suc m] (cc1, u1)) ! j = cc ! j"
    by (simp add: A assignColor_step [OF m])
  with step A show ?case by simp
qed


lemma assign_loop_used:
  assumes "k \<le> length cc1"
  shows "set (snd (fold (assignColor P cls) [0..<k] (cc1, u1))) =
         set u1 \<union> {fst (fold (assignColor P cls) [0..<length cc1] (cc1, u1)) ! j | j.
                      j < k \<and> cc1 ! j = Null
                      \<and> fst (fold (assignColor P cls) [0..<length cc1] (cc1, u1)) ! j \<noteq> Null}"
  using assms
proof (induction k)
  case 0 then show ?case by simp
next
  case (Suc k)
  let ?A = "\<lambda>k. fold (assignColor P cls) [0..<k] (cc1, u1)"
  let ?fin = "fst (?A (length cc1))"
  have k: "k < length cc1" using Suc.prems by simp
  have fin_k: "?fin ! k = chosen P (cls ! k) (cc1 ! k) (set (snd (?A k)))"
    using assign_loop_stable [of k "Suc k" "length cc1" cc1 P cls u1] k
    by (simp only: assign_loop_at(1) [OF k])
  have IH: "set (snd (?A k)) = set u1 \<union> {?fin ! j | j. j < k \<and> cc1 ! j = Null \<and> ?fin ! j \<noteq> Null}"
    using Suc by simp
  have split: "{?fin ! j | j. j < Suc k \<and> cc1 ! j = Null \<and> ?fin ! j \<noteq> Null}
             = {?fin ! j | j. j < k \<and> cc1 ! j = Null \<and> ?fin ! j \<noteq> Null}
               \<union> (if cc1 ! k = Null \<and> ?fin ! k \<noteq> Null then {?fin ! k} else {})"
    by (auto simp: less_Suc_eq)
  have "set (snd (?A (Suc k))) =
        set (snd (?A k)) \<union> (if cc1 ! k = Null \<and> ?fin ! k \<noteq> Null then {?fin ! k} else {})"
    by (simp only: assign_loop_at(2) [OF k] fin_k Let_def) auto
  then show ?case
    by (simp only: IH split Un_assoc)
qed

lemma assign_loop_result:
  assumes "i < length cc1"
  shows "fst (fold (assignColor P cls) [0..<length cc1] (cc1, u1)) ! i =
         chosen P (cls ! i) (cc1 ! i)
           (set u1 \<union> {fst (fold (assignColor P cls) [0..<length cc1] (cc1, u1)) ! j | j.
                      j < i \<and> cc1 ! j = Null
                      \<and> fst (fold (assignColor P cls) [0..<length cc1] (cc1, u1)) ! j \<noteq> Null})"
proof -
  have "fst (fold (assignColor P cls) [0..<length cc1] (cc1, u1)) ! i
      = fst (fold (assignColor P cls) [0..<Suc i] (cc1, u1)) ! i"
    using assign_loop_stable [of i "Suc i" "length cc1" cc1 P cls u1] assms by simp
  also have "\<dots> = chosen P (cls ! i) (cc1 ! i) (set (snd (fold (assignColor P cls) [0..<i] (cc1, u1))))"
    by (rule assign_loop_at(1) [OF assms])
  finally show ?thesis
    using assign_loop_used [of i cc1 P cls u1] assms by simp
qed

subsection \<open>What updateColors assigns\<close>

lemma updateColors_fields [simp]:
  "classes (updateColors st) = classes st"
  "labelsIndex (updateColors st) = labelsIndex st"
  "alignedDatasetField (updateColors st) = alignedDatasetField st"
  by (simp_all add: updateColors_def Let_def split: prod.splits)

lemma keep_loop_prior:
  "(case classColormap st of
      Val m \<Rightarrow> fold (keepColor (getProp m) cls) [0..<length cls] (map (\<lambda>_. Null) cls, [])
    | _ \<Rightarrow> (map (\<lambda>_. Null) cls, []))
   = (map (kept (priorColor st)) cls, filter truthy (map (priorColor st) cls))"
proof (cases "classColormap st")
  case (Val m)
  then have "priorColor st = getProp m" by (simp add: priorColor_def fun_eq_iff)
  with Val show ?thesis by (simp add: keepColor_loop_full)
next
  case Undefined
  then have "priorColor st = (\<lambda>_. Undefined)" by (simp add: priorColor_def fun_eq_iff)
  with Undefined show ?thesis by (simp add: kept_def)
next
  case Null
  then have "priorColor st = (\<lambda>_. Undefined)" by (simp add: priorColor_def fun_eq_iff)
  with Null show ?thesis by (simp add: kept_def)
qed

lemma updateColors_classColors:
  "classColors (updateColors st) =
     fst (fold (assignColor (if length (classes st) < 6 then colorbrewer6 else d3category20) (classes st))
            [0..<length (map (kept (priorColor st)) (classes st))]
            (map (kept (priorColor st)) (classes st),
             filter truthy (map (priorColor st) (classes st))))"
  by (simp add: updateColors_def Let_def keep_loop_prior split: prod.splits)

lemma length_classColors [simp]:
  "length (classColors (updateColors st)) = length (classes st)"
  using assign_loop_frame [of "length (classes st)" "map (kept (priorColor st)) (classes st)"]
  by (simp add: updateColors_classColors)

lemma kept_Null_iff: "kept m c = Null \<longleftrightarrow> \<not> truthy (m c)"
  by (cases "m c") (auto simp: kept_def)

lemma updateColors_at:
  assumes "i < length (classes st)"
  shows "classColors (updateColors st) ! i =
         chosen (if length (classes st) < 6 then colorbrewer6 else d3category20)
           (classes st ! i) (kept (priorColor st) (classes st ! i))
           ({priorColor st c | c. c \<in> set (classes st) \<and> truthy (priorColor st c)}
            \<union> {classColors (updateColors st) ! j | j.
                 j < i \<and> \<not> truthy (priorColor st (classes st ! j))
                 \<and> classColors (updateColors st) ! j \<noteq> Null})"
proof -
  let ?cc1 = "map (kept (priorColor st)) (classes st)"
  let ?u1 = "filter truthy (map (priorColor st) (classes st))"
  have i: "i < length ?cc1" using assms by simp
  have u1: "set ?u1 = {priorColor st c | c. c \<in> set (classes st) \<and> truthy (priorColor st c)}"
    by auto
  have nth1: "?cc1 ! j = Null \<longleftrightarrow> \<not> truthy (priorColor st (classes st ! j))" if "j < i" for j
    using that assms by (simp add: kept_Null_iff)
  have sets: "{f j | j. j < i \<and> ?cc1 ! j = Null \<and> f j \<noteq> Null}
            = {f j | j. j < i \<and> \<not> truthy (priorColor st (classes st ! j)) \<and> f j \<noteq> Null}"
    for f :: "nat \<Rightarrow> cval js"
    using nth1 by auto
  have "classColors (updateColors st) ! i =
        chosen (if length (classes st) < 6 then colorbrewer6 else d3category20)
          (classes st ! i) (?cc1 ! i)
          (set ?u1 \<union> {classColors (updateColors st) ! j | j.
                 j < i \<and> ?cc1 ! j = Null \<and> classColors (updateColors st) ! j \<noteq> Null})"
    using assign_loop_result [OF i, of "if length (classes st) < 6 then colorbrewer6 else d3category20"
        "classes st" ?u1]
    unfolding updateColors_classColors [symmetric] .
  then show ?thesis
    unfolding u1 sets using assms by simp
qed






subsection \<open>The rebuilt class-to-colour object\<close>

lemma own_setProp_other: "c \<noteq> n \<Longrightarrow> own (setProp obj n v) c = own obj c"
  by (simp add: setProp_def split: js.splits cval.splits)

lemma own_setProp_cases:
  "own (setProp obj n v') c = Some v \<Longrightarrow> own obj c = Some v \<or> (c = n \<and> v = v')"
  by (auto simp: setProp_def split: js.splits cval.splits if_splits)

lemma setProp_plain:
  "n \<noteq> ''__proto__'' \<Longrightarrow> setProp obj n v = obj\<lparr>own := (own obj)(n \<mapsto> v)\<rparr>"
  by (simp add: setProp_def)

lemma setProp_proto:
  "own obj ''__proto__'' = None \<Longrightarrow> hasObjectPrototype obj \<Longrightarrow>
   setProp obj ''__proto__'' v = (if v = Null then obj\<lparr>hasObjectPrototype := False\<rparr> else obj)"
  by (simp add: setProp_def split: js.splits cval.splits)

lemma colormap_loop_Suc:
  "fold (\<lambda>i m. setProp m (cls ! i) (cc ! i)) [0..<Suc k] obj
   = setProp (fold (\<lambda>i m. setProp m (cls ! i) (cc ! i)) [0..<k] obj) (cls ! k) (cc ! k)"
  by simp

lemma colormap_loop_notin:
  "k \<le> length cls \<Longrightarrow> c \<notin> set (take k cls) \<Longrightarrow>
   own (fold (\<lambda>i m. setProp m (cls ! i) (cc ! i)) [0..<k] obj) c = own obj c"
proof (induction k)
  case 0 then show ?case by simp
next
  case (Suc k)
  then have "c \<noteq> cls ! k" and "c \<notin> set (take k cls)" and "k \<le> length cls"
    by (auto simp: take_Suc_conv_app_nth)
  with Suc.IH show ?case
    by (simp add: own_setProp_other)
qed

lemma colormap_loop_own:
  "own (fold (\<lambda>i m. setProp m (cls ! i) (cc ! i)) [0..<k] emptyObject) c = Some v \<Longrightarrow>
   \<exists>j<k. cls ! j = c \<and> cc ! j = v"
proof (induction k)
  case 0 then show ?case by (simp add: emptyObject_def)
next
  case (Suc k)
  from Suc.prems
  have "own (fold (\<lambda>i m. setProp m (cls ! i) (cc ! i)) [0..<k] emptyObject) c = Some v
        \<or> (c = cls ! k \<and> v = cc ! k)"
    by (simp only: colormap_loop_Suc) (rule own_setProp_cases)
  then show ?case
  proof
    assume "own (fold (\<lambda>i m. setProp m (cls ! i) (cc ! i)) [0..<k] emptyObject) c = Some v"
    from Suc.IH [OF this] obtain j where "j < k" "cls ! j = c" "cc ! j = v" by blast
    then have "j < Suc k \<and> cls ! j = c \<and> cc ! j = v" by simp
    then show ?thesis by blast
  next
    assume "c = cls ! k \<and> v = cc ! k"
    then have "k < Suc k \<and> cls ! k = c \<and> cc ! k = v" by simp
    then show ?thesis by blast
  qed
qed

lemma colormap_loop_proto:
  assumes "distinct cls"
  shows "k \<le> length cls \<Longrightarrow>
     own (fold (\<lambda>i m. setProp m (cls ! i) (cc ! i)) [0..<k] emptyObject) ''__proto__'' = None
     \<and> (hasObjectPrototype (fold (\<lambda>i m. setProp m (cls ! i) (cc ! i)) [0..<k] emptyObject)
          \<longleftrightarrow> \<not> (\<exists>j<k. cls ! j = ''__proto__'' \<and> cc ! j = Null))"
proof (induction k)
  case 0 then show ?case by (simp add: emptyObject_def)
next
  case (Suc k)
  let ?b = "fold (\<lambda>i m. setProp m (cls ! i) (cc ! i)) [0..<k] emptyObject"
  from Suc have k: "k < length cls" and own: "own ?b ''__proto__'' = None"
    and flag: "hasObjectPrototype ?b \<longleftrightarrow> \<not> (\<exists>j<k. cls ! j = ''__proto__'' \<and> cc ! j = Null)"
    by simp_all
  show ?case
  proof (cases "cls ! k = ''__proto__''")
    case True
    have "\<not> (\<exists>j<k. cls ! j = ''__proto__'')"
    proof
      assume "\<exists>j<k. cls ! j = ''__proto__''"
      then obtain j where "j < k" "cls ! j = cls ! k" using True by auto
      with assms k show False by (simp add: nth_eq_iff_index_eq)
    qed
    then have none: "\<not> (\<exists>j<k. cls ! j = ''__proto__'' \<and> cc ! j = Null)" by blast
    with flag have has: "hasObjectPrototype ?b" by simp
    have ex: "(\<exists>j<Suc k. cls ! j = ''__proto__'' \<and> cc ! j = Null) \<longleftrightarrow> cc ! k = Null"
      using none True by (auto simp: less_Suc_eq)
    have sp: "setProp ?b (cls ! k) (cc ! k)
              = (if cc ! k = Null then ?b\<lparr>hasObjectPrototype := False\<rparr> else ?b)"
      using setProp_proto [OF own has] True by simp
    show ?thesis
      unfolding colormap_loop_Suc sp ex using own has by simp
  next
    case False
    have ex: "(\<exists>j<Suc k. cls ! j = ''__proto__'' \<and> cc ! j = Null)
              \<longleftrightarrow> (\<exists>j<k. cls ! j = ''__proto__'' \<and> cc ! j = Null)"
      using False by (auto simp: less_Suc_eq)
    have sp: "setProp ?b (cls ! k) (cc ! k) = ?b\<lparr>own := (own ?b)(cls ! k \<mapsto> cc ! k)\<rparr>"
      by (rule setProp_plain [OF False])
    show ?thesis
      unfolding colormap_loop_Suc sp ex using own flag False by auto
  qed
qed

lemma colormap_loop_distinct:
  assumes "distinct cls"
  shows "k \<le> length cls \<Longrightarrow> j < k \<Longrightarrow> cls ! j \<noteq> ''__proto__'' \<Longrightarrow>
     own (fold (\<lambda>i m. setProp m (cls ! i) (cc ! i)) [0..<k] emptyObject) (cls ! j) = Some (cc ! j)"
proof (induction k)
  case 0 then show ?case by simp
next
  case (Suc k)
  show ?case
  proof (cases "j = k")
    case True
    with Suc.prems show ?thesis
      by (simp only: colormap_loop_Suc) (simp add: setProp_plain)
  next
    case False
    with Suc.prems have jk: "j < k" and k: "k \<le> length cls" by simp_all
    with Suc.prems assms have "cls ! j \<noteq> cls ! k" by (simp add: nth_eq_iff_index_eq)
    with Suc.IH [OF k jk Suc.prems(3)] show ?thesis
      by (simp add: own_setProp_other)
  qed
qed

lemma classColormap_updateColors:
  "classColormap (updateColors st) =
     Val (fold (\<lambda>i m. setProp m (classes st ! i) (classColors (updateColors st) ! i))
            [0..<length (classes st)] emptyObject)"
proof -
  have "classColormap (updateColors st) =
        Val (fold (\<lambda>i m. setProp m (classes st ! i) (classColors (updateColors st) ! i))
               [0..<length (classColors (updateColors st))] emptyObject)"
    by (simp add: updateColors_def Let_def split: prod.splits)
  then show ?thesis by simp
qed

lemma priorColor_updateColors:
  "priorColor (updateColors st) c =
     getProp (fold (\<lambda>i m. setProp m (classes st ! i) (classColors (updateColors st) ! i))
                [0..<length (classes st)] emptyObject) c"
  by (simp add: priorColor_def classColormap_updateColors)

lemma priorColor_updateColors_notin:
  "c \<notin> set (classes st) \<Longrightarrow>
   priorColor (updateColors st) c = Undefined \<or> priorColor (updateColors st) c = Val Inherited"
  by (simp add: priorColor_updateColors getProp_def colormap_loop_notin emptyObject_def)

lemma priorColor_updateColors_range:
  "priorColor (updateColors st) c = Undefined
   \<or> priorColor (updateColors st) c = Val Inherited
   \<or> priorColor (updateColors st) c \<in> set (classColors (updateColors st))"
proof (cases "own (fold (\<lambda>i m. setProp m (classes st ! i) (classColors (updateColors st) ! i))
                [0..<length (classes st)] emptyObject) c")
  case None
  then show ?thesis by (simp add: priorColor_updateColors getProp_def)
next
  case (Some v)
  from colormap_loop_own [OF this] obtain j
    where "j < length (classes st)" "classColors (updateColors st) ! j = v" by blast
  then have "v \<in> set (classColors (updateColors st))" by (metis length_classColors nth_mem)
  with Some show ?thesis by (simp add: priorColor_updateColors getProp_def)
qed

lemma priorColor_updateColors_nth:
  assumes "distinct (classes st)" "j < length (classes st)" "classes st ! j \<noteq> ''__proto__''"
  shows "priorColor (updateColors st) (classes st ! j) = classColors (updateColors st) ! j"
  using colormap_loop_distinct [OF assms(1) le_refl assms(2,3),
      where cc = "classColors (updateColors st)"]
  by (simp add: priorColor_updateColors getProp_def)

lemma priorColor_updateColors_proto:
  assumes "distinct (classes st)" "j < length (classes st)" "classes st ! j = ''__proto__''"
  shows "priorColor (updateColors st) ''__proto__''
         = (if classColors (updateColors st) ! j = Null then Undefined else Val Inherited)"
proof -
  let ?cc = "classColors (updateColors st)"
  have uniq: "(\<exists>i<length (classes st). classes st ! i = ''__proto__'' \<and> ?cc ! i = Null)
              \<longleftrightarrow> ?cc ! j = Null"
  proof
    assume "\<exists>i<length (classes st). classes st ! i = ''__proto__'' \<and> ?cc ! i = Null"
    then obtain i where i: "i < length (classes st)" "classes st ! i = classes st ! j"
      "?cc ! i = Null" using assms(3) by auto
    have "(classes st ! i = classes st ! j) = (i = j)"
      using assms(1) i(1) assms(2) by (rule nth_eq_iff_index_eq)
    with i(2) have "i = j" by simp
    with i(3) show "?cc ! j = Null" by simp
  next
    assume "?cc ! j = Null"
    with assms show "\<exists>i<length (classes st). classes st ! i = ''__proto__'' \<and> ?cc ! i = Null"
      by blast
  qed
  from colormap_loop_proto [OF assms(1), where k = "length (classes st)" and cc = ?cc]
  show ?thesis
    by (simp add: priorColor_updateColors getProp_def uniq objectPrototypeKeys_def)
qed


subsection \<open>Running updateColors again\<close>

lemma find_Some_D: "find P xs = Some x \<Longrightarrow> x \<in> set xs \<and> P x"
  by (induction xs) (auto split: if_splits)

lemma palette_nonempty: "[] \<notin> set colorbrewer6" "[] \<notin> set d3category20"
  by (simp_all add: colorbrewer6_def d3category20_def)

lemma palette_no_grey: "''#CCC'' \<notin> set colorbrewer6" "''#CCC'' \<notin> set d3category20"
  by (simp_all add: colorbrewer6_def d3category20_def)

lemma kept_Null_or_truthy: "kept m c = Null \<or> truthy (kept m c)"
  by (simp add: kept_def)

lemma kept_truthy_D: "truthy (kept m c) \<Longrightarrow> m c = kept m c \<and> truthy (m c)"
  by (cases "truthy (m c)") (simp_all add: kept_def)

lemma chosen_Null_or_truthy:
  assumes "[] \<notin> set P"
  shows "chosen P c (kept m c') U = Null \<or> truthy (chosen P c (kept m c') U)"
proof (cases "find (\<lambda>p. Val (Str p) \<notin> U) P")
  case None
  then show ?thesis using kept_Null_or_truthy [of m c'] by (auto simp: chosen_def)
next
  case (Some p)
  then have "p \<noteq> []" using assms find_Some_D by fastforce
  with Some show ?thesis using kept_Null_or_truthy [of m c'] by (auto simp: chosen_def)
qed

lemma classColors_Null_or_truthy:
  assumes "i < length (classes st)"
  shows "classColors (updateColors st) ! i = Null \<or> truthy (classColors (updateColors st) ! i)"
proof -
  have "[] \<notin> set (if length (classes st) < 6 then colorbrewer6 else d3category20)"
    by (simp add: palette_nonempty)
  from chosen_Null_or_truthy [OF this] show ?thesis
    by (subst (1 2) updateColors_at [OF assms]) blast
qed

lemma classColors_kept_prior:
  assumes "i < length (classes st)" "truthy (priorColor st (classes st ! i))"
  shows "classColors (updateColors st) ! i = priorColor st (classes st ! i)"
  using assms(2) by (subst updateColors_at [OF assms(1)]) (auto simp: chosen_def kept_def)

lemma truthy_cases:
  assumes "truthy v"
  obtains s where "v = Val (Str s)" | "v = Val Inherited"
proof (cases v)
  case (Val x)
  then show ?thesis using that by (cases x) simp_all
qed (use assms in simp_all)

text \<open>
  The first loop of a second run finds again the entry that the first run left for
  class \<open>j\<close>, except when the class is named \<^verbatim>\<open>__proto__\<close> and the first run gave it a
  string.
\<close>

lemma kept_again:
  assumes d: "distinct (classes st)" and j: "j < length (classes st)"
    and h: "classes st ! j = ''__proto__'' \<Longrightarrow> \<forall>s. classColors (updateColors st) ! j \<noteq> Val (Str s)"
  shows "kept (priorColor (updateColors st)) (classes st ! j) = classColors (updateColors st) ! j"
proof (cases "classes st ! j = ''__proto__''")
  case False
  with d j have "priorColor (updateColors st) (classes st ! j) = classColors (updateColors st) ! j"
    by (rule priorColor_updateColors_nth)
  with classColors_Null_or_truthy [OF j] show ?thesis by (auto simp: kept_def)
next
  case True
  from priorColor_updateColors_proto [OF d j True]
  have pr: "priorColor (updateColors st) (classes st ! j)
            = (if classColors (updateColors st) ! j = Null then Undefined else Val Inherited)"
    by (simp only: True)
  from classColors_Null_or_truthy [OF j] show ?thesis
  proof
    assume "classColors (updateColors st) ! j = Null"
    with pr show ?thesis by (simp add: kept_def)
  next
    assume t: "truthy (classColors (updateColors st) ! j)"
    then have nn: "classColors (updateColors st) ! j \<noteq> Null" by auto
    from t have "classColors (updateColors st) ! j = Val Inherited"
    proof (cases rule: truthy_cases)
      case (1 s)
      with h [OF True] show ?thesis by blast
    next
      case 2
      then show ?thesis .
    qed
    with pr nn show ?thesis by (simp add: kept_def)
  qed
qed

lemma updateColors_again_at:
  assumes d: "distinct (classes st)"
    and h: "\<And>j. j < length (classes st) \<Longrightarrow> classes st ! j = ''__proto__'' \<Longrightarrow>
              \<forall>s. classColors (updateColors st) ! j \<noteq> Val (Str s)"
    and i: "i < length (classes st)"
  shows "classColors (updateColors (updateColors st)) ! i = classColors (updateColors st) ! i"
proof -
  define st1 where "st1 = updateColors st"
  define c1 where "c1 = classColors st1"
  define c2 where "c2 = classColors (updateColors st1)"
  define P where "P = (if length (classes st) < 6 then colorbrewer6 else d3category20)"
  define U1 where "U1 = {priorColor st c | c. c \<in> set (classes st) \<and> truthy (priorColor st c)}
             \<union> {c1 ! j | j. j < i \<and> \<not> truthy (priorColor st (classes st ! j)) \<and> c1 ! j \<noteq> Null}"
  define U2 where "U2 = {priorColor st1 c | c. c \<in> set (classes st) \<and> truthy (priorColor st1 c)}
             \<union> {c2 ! j | j. j < i \<and> \<not> truthy (priorColor st1 (classes st ! j)) \<and> c2 ! j \<noteq> Null}"
  have cls1: "classes st1 = classes st" by (simp add: st1_def)
  have k1: "kept (priorColor st1) (classes st ! j) = c1 ! j" if "j < length (classes st)" for j
    unfolding st1_def c1_def using d that h [OF that] by (rule kept_again)
  have nt: "c1 ! j = Null \<or> truthy (c1 ! j)" if "j < length (classes st)" for j
    unfolding st1_def c1_def using that by (rule classColors_Null_or_truthy)
  have at1: "c1 ! i = chosen P (classes st ! i) (kept (priorColor st) (classes st ! i)) U1"
    unfolding c1_def st1_def P_def U1_def by (rule updateColors_at [OF i])
  have "i < length (classes st1)" using i cls1 by simp
  from updateColors_at [OF this]
  have at2: "c2 ! i = chosen P (classes st ! i) (kept (priorColor st1) (classes st ! i)) U2"
    unfolding c2_def P_def U2_def cls1 .
  have k2: "kept (priorColor st1) (classes st ! i) = c1 ! i"
    by (rule k1 [OF i])
  have "c2 ! i = c1 ! i"
  proof (cases "c1 ! i = Null")
    case False
    then show ?thesis by (simp add: at2 k2 chosen_def)
  next
    case True
    have mem: "x \<in> U2" if x: "x \<in> U1" for x
    proof -
      from x consider (prior) c where "x = priorColor st c" "c \<in> set (classes st)" "truthy (priorColor st c)"
        | (new) j where "x = c1 ! j" "j < i" "c1 ! j \<noteq> Null"
        unfolding U1_def by blast
      then have "\<exists>j < length (classes st). x = c1 ! j \<and> truthy (c1 ! j)"
      proof cases
        case prior
        then obtain j where j: "j < length (classes st)" "c = classes st ! j"
          by (auto simp: in_set_conv_nth)
        with prior have "c1 ! j = x"
          unfolding c1_def st1_def by (simp add: classColors_kept_prior)
        with prior j show ?thesis by auto
      next
        case new
        with i have jn: "j < length (classes st)" by simp
        with new nt [OF jn] have "x = c1 ! j \<and> truthy (c1 ! j)" by simp
        with jn show ?thesis by blast
      qed
      then obtain j where j: "j < length (classes st)" "x = c1 ! j" "truthy (c1 ! j)" by blast
      from j(3) have "truthy (kept (priorColor st1) (classes st ! j))"
        by (simp only: k1 [OF j(1)])
      note D = kept_truthy_D [OF this]
      from D have "priorColor st1 (classes st ! j) = c1 ! j"
        unfolding k1 [OF j(1)] by (rule conjunct1)
      with j(2) have "x = priorColor st1 (classes st ! j)" by simp
      moreover from D have "truthy (priorColor st1 (classes st ! j))" by (rule conjunct2)
      moreover have "classes st ! j \<in> set (classes st)" using j(1) by simp
      ultimately have "x \<in> {priorColor st1 c | c. c \<in> set (classes st) \<and> truthy (priorColor st1 c)}"
        by blast
      then show ?thesis unfolding U2_def by (rule UnI1)
    qed
    from True at1 have ch: "chosen P (classes st ! i) (kept (priorColor st) (classes st ! i)) U1 = Null"
      by simp
    have notI: "classes st ! i \<noteq> ''IGNORE''"
      using ch kept_Null_or_truthy [of "priorColor st" "classes st ! i"]
      by (auto simp: chosen_def split: if_splits)
    have none1: "find (\<lambda>p. Val (Str p) \<notin> U1) P = None"
      using ch notI by (auto simp: chosen_def split: if_splits option.splits)
    have "find (\<lambda>p. Val (Str p) \<notin> U2) P = None"
      unfolding find_None_iff
    proof
      assume "\<exists>p. p \<in> set P \<and> Val (Str p) \<notin> U2"
      then obtain p where p: "p \<in> set P" "Val (Str p) \<notin> U2" by blast
      from none1 p(1) have "Val (Str p) \<in> U1" unfolding find_None_iff by blast
      with mem p(2) show False by blast
    qed
    with notI have "chosen P (classes st ! i) Null U2 = Null"
      by (simp add: chosen_def)
    with True show ?thesis by (simp only: at2 k2)
  qed
  then show ?thesis by (simp only: c1_def c2_def st1_def)
qed

lemma updateColors_again:
  assumes "distinct (classes st)"
    and "\<And>j. j < length (classes st) \<Longrightarrow> classes st ! j = ''__proto__'' \<Longrightarrow>
              \<forall>s. classColors (updateColors st) ! j \<noteq> Val (Str s)"
  shows "classColors (updateColors (updateColors st)) = classColors (updateColors st)"
    and "classColormap (updateColors (updateColors st)) = classColormap (updateColors st)"
proof -
  show eq: "classColors (updateColors (updateColors st)) = classColors (updateColors st)"
  proof (rule nth_equalityI)
    show "length (classColors (updateColors (updateColors st))) = length (classColors (updateColors st))"
      by simp
  next
    fix i
    assume "i < length (classColors (updateColors (updateColors st)))"
    then have "i < length (classes st)" by simp
    with assms show "classColors (updateColors (updateColors st)) ! i = classColors (updateColors st) ! i"
      by (rule updateColors_again_at)
  qed
  have "classColormap (updateColors (updateColors st)) =
     Val (fold (\<lambda>i m. setProp m (classes st ! i) (classColors (updateColors (updateColors st)) ! i))
            [0..<length (classes st)] emptyObject)"
    using classColormap_updateColors [of "updateColors st"] by simp
  then show "classColormap (updateColors (updateColors st)) = classColormap (updateColors st)"
    by (simp only: eq classColormap_updateColors [of st])
qed

subsection \<open>removeClass and addClass\<close>

lemma forEach_collect:
  "TimeRangeIndex_forEach (\<lambda>label acc. if className label = c then acc @ [label] else acc) idx acc0
   = acc0 @ filter (\<lambda>l. className l = c) idx"
  unfolding TimeRangeIndex_forEach_def
  by (induction idx arbitrary: acc0) simp_all

lemma fold_remove_filter:
  "\<forall>y \<in> set ys. \<not> P y \<Longrightarrow>
   fold TimeRangeIndex_remove (filter P xs) (ys @ xs) = ys @ filter (\<lambda>x. \<not> P x) xs"
proof (induction xs arbitrary: ys)
  case Nil then show ?case by simp
next
  case (Cons x xs)
  show ?case
  proof (cases "P x")
    case True
    with Cons.prems have "x \<notin> set ys" by blast
    then have "remove1 x (ys @ x # xs) = ys @ xs" by (simp add: remove1_append)
    with True Cons.IH [OF Cons.prems] show ?thesis by (simp add: TimeRangeIndex_remove_def)
  next
    case False
    with Cons.prems have "\<forall>y \<in> set (ys @ [x]). \<not> P y" by simp
    from Cons.IH [OF this] False show ?thesis by simp
  qed
qed

lemma removeClass_labelsIndex:
  "labelsIndex (removeClass c st) = filter (\<lambda>l. className l \<noteq> c) (labelsIndex st)"
proof -
  have rm: "fold TimeRangeIndex_remove (filter (\<lambda>l. className l = c) (labelsIndex st)) (labelsIndex st)
            = filter (\<lambda>l. className l \<noteq> c) (labelsIndex st)"
    using fold_remove_filter [of "[]" "\<lambda>l. className l = c" "labelsIndex st"] by simp
  have same: "filter (\<lambda>l. className l \<noteq> c) (labelsIndex st) = labelsIndex st"
    if "filter (\<lambda>l. className l = c) (labelsIndex st) = []"
    using that by (simp add: filter_empty_conv)
  show ?thesis
    by (auto simp: removeClass_def Let_def forEach_collect rm same)
qed

lemma removeClass_classes:
  "classes (removeClass c st) = remove1 c (classes st)"
proof (cases "c \<in> set (classes st)")
  case True
  then have "\<not> indexOf (classes st) c < 0" by (simp add: indexOf_neg_iff)
  with True show ?thesis
    by (simp add: removeClass_def Let_def indexOf_splice1)
next
  case False
  then have "indexOf (classes st) c < 0" by (simp add: indexOf_neg_iff)
  with False show ?thesis
    by (simp add: removeClass_def Let_def remove1_idem)
qed

lemma removeClass_is_updateColors:
  assumes "c \<in> set (classes st)"
  shows "\<exists>st'. removeClass c st = updateColors st' \<and> classes st' = remove1 c (classes st)"
proof -
  from assms have "\<not> indexOf (classes st) c < 0" by (simp add: indexOf_neg_iff)
  with assms show ?thesis
    by (auto simp: removeClass_def Let_def indexOf_splice1 intro!: exI)
qed

lemma addClass_new:
  "d \<notin> set (classes st) \<Longrightarrow> addClass d st = updateColors (st\<lparr>classes := classes st @ [d]\<rparr>)"
  by (simp add: addClass_def indexOf_neg_iff)

text \<open>
  The colour of a class \<open>d\<close> appended to the classes of \<open>st\<close>, against the colour of a
  class \<open>j\<close> before it: when \<open>d\<close> reads a truthy value, when it is given a palette colour,
  and when it is named \<^verbatim>\<open>IGNORE\<close>.
\<close>

lemma new_class_inherited:
  assumes pr: "priorColor st d = Val Inherited" and nd: "d \<notin> set (classes st)"
    and j: "j < length (classes st)"
  shows "\<not> sameColor (classes st ! j)
             (classColors (updateColors (st\<lparr>classes := classes st @ [d]\<rparr>)) ! j) d
             (classColors (updateColors (st\<lparr>classes := classes st @ [d]\<rparr>)) ! length (classes st))"
proof -
  from j have "classes st ! j \<in> set (classes st)" by simp
  with nd have "classes st ! j \<noteq> d" by blast
  moreover have "classColors (updateColors (st\<lparr>classes := classes st @ [d]\<rparr>)) ! length (classes st)
                 = Val Inherited"
    using classColors_kept_prior [of "length (classes st)" "st\<lparr>classes := classes st @ [d]\<rparr>"] pr
    by (simp add: priorColor_def)
  ultimately show ?thesis by (simp add: sameColor_def)
qed

lemma new_class_color:
  assumes np: "\<not> truthy (priorColor st d)" and nI: "d \<noteq> ''IGNORE''"
    and j: "j < length (classes st)"
    and nn: "classColors (updateColors (st\<lparr>classes := classes st @ [d]\<rparr>)) ! j \<noteq> Null"
  shows "classColors (updateColors (st\<lparr>classes := classes st @ [d]\<rparr>)) ! j
       \<noteq> classColors (updateColors (st\<lparr>classes := classes st @ [d]\<rparr>)) ! length (classes st)"
proof -
  define st' where "st' = st\<lparr>classes := classes st @ [d]\<rparr>"
  define n where "n = length (classes st)"
  define c2 where "c2 = classColors (updateColors st')"
  define P where "P = (if length (classes st') < 6 then colorbrewer6 else d3category20)"
  define U where "U = {priorColor st' c | c. c \<in> set (classes st') \<and> truthy (priorColor st' c)}
             \<union> {c2 ! k | k. k < n \<and> \<not> truthy (priorColor st' (classes st' ! k)) \<and> c2 ! k \<noteq> Null}"
  have pr: "priorColor st' = priorColor st" by (simp add: st'_def priorColor_def fun_eq_iff)
  have cls: "classes st' = classes st @ [d]" by (simp add: st'_def)
  have n': "n < length (classes st')" and j': "j < length (classes st')"
    using j by (simp_all add: cls n_def)
  have last: "classes st' ! n = d" by (simp add: cls n_def)
  from updateColors_at [OF n']
  have atn: "c2 ! n = chosen P d (kept (priorColor st') d) U"
    unfolding c2_def P_def U_def last .
  have "kept (priorColor st') d = Null" using np by (simp add: kept_def pr)
  with atn nI have cn: "c2 ! n = (case find (\<lambda>p. Val (Str p) \<notin> U) P of Some p \<Rightarrow> Val (Str p) | None \<Rightarrow> Null)"
    by (simp add: chosen_def)
  have nnj: "c2 ! j \<noteq> Null" using nn by (simp add: c2_def st'_def)
  have inU: "c2 ! j \<in> U"
  proof (cases "truthy (priorColor st' (classes st' ! j))")
    case True
    then have "c2 ! j = priorColor st' (classes st' ! j)"
      unfolding c2_def using j' by (simp add: classColors_kept_prior)
    moreover have "classes st' ! j \<in> set (classes st')" using j' by simp
    ultimately have "c2 ! j \<in> {priorColor st' c | c. c \<in> set (classes st') \<and> truthy (priorColor st' c)}"
      using True by blast
    then show ?thesis unfolding U_def by (rule UnI1)
  next
    case False
    with nnj j have "c2 ! j \<in> {c2 ! k | k. k < n \<and> \<not> truthy (priorColor st' (classes st' ! k)) \<and> c2 ! k \<noteq> Null}"
      unfolding n_def by blast
    then show ?thesis unfolding U_def by (rule UnI2)
  qed
  have "c2 ! j \<noteq> c2 ! n"
  proof (cases "find (\<lambda>p. Val (Str p) \<notin> U) P")
    case None
    with cn nnj show ?thesis by simp
  next
    case (Some p)
    then have "Val (Str p) \<notin> U" using find_Some_D by fastforce
    with inU Some cn show ?thesis by auto
  qed
  then show ?thesis unfolding c2_def st'_def n_def .
qed

lemma new_class_IGNORE:
  assumes nd: "''IGNORE'' \<notin> set (classes st)"
    and ng: "\<And>c. c \<in> set (classes st) \<Longrightarrow> priorColor st c \<noteq> Val (Str ''#CCC'')"
    and j: "j < length (classes st)"
  shows "classColors (updateColors (st\<lparr>classes := classes st @ [''IGNORE'']\<rparr>)) ! j
       \<noteq> Val (Str ''#CCC'')"
proof -
  define st' where "st' = st\<lparr>classes := classes st @ [''IGNORE'']\<rparr>"
  define P where "P = (if length (classes st') < 6 then colorbrewer6 else d3category20)"
  define U where "U = {priorColor st' c | c. c \<in> set (classes st') \<and> truthy (priorColor st' c)}
             \<union> {classColors (updateColors st') ! k | k.
                  k < j \<and> \<not> truthy (priorColor st' (classes st' ! k))
                  \<and> classColors (updateColors st') ! k \<noteq> Null}"
  have pr: "priorColor st' = priorColor st" by (simp add: st'_def priorColor_def fun_eq_iff)
  have j': "j < length (classes st')" using j by (simp add: st'_def)
  have cj: "classes st' ! j = classes st ! j" using j by (simp add: st'_def nth_append)
  have mem: "classes st ! j \<in> set (classes st)" using j by simp
  with nd have nI: "classes st ! j \<noteq> ''IGNORE''" by metis
  have grey: "''#CCC'' \<notin> set P" by (simp add: P_def palette_no_grey)
  from updateColors_at [OF j']
  have at: "classColors (updateColors st') ! j
            = chosen P (classes st ! j) (kept (priorColor st) (classes st ! j)) U"
    unfolding P_def U_def cj pr .
  have "chosen P (classes st ! j) (kept (priorColor st) (classes st ! j)) U \<noteq> Val (Str ''#CCC'')"
  proof (cases "truthy (priorColor st (classes st ! j))")
    case True
    then have "chosen P (classes st ! j) (kept (priorColor st) (classes st ! j)) U
               = priorColor st (classes st ! j)"
      by (auto simp: chosen_def kept_def)
    with ng [OF mem] show ?thesis by simp
  next
    case False
    then have k: "kept (priorColor st) (classes st ! j) = Null" by (simp add: kept_def)
    show ?thesis
    proof (cases "find (\<lambda>p. Val (Str p) \<notin> U) P")
      case None
      with k nI show ?thesis by (simp add: chosen_def)
    next
      case (Some p)
      then have "p \<in> set P" using find_Some_D by fastforce
      with grey have "p \<noteq> ''#CCC''" by metis
      with Some k nI show ?thesis by (simp add: chosen_def)
    qed
  qed
  with at show ?thesis unfolding st'_def by simp
qed

lemma IGNORE_not_inherited: "''IGNORE'' \<notin> set objectPrototypeKeys"
  by (simp add: objectPrototypeKeys_def)

lemma priorColor_Inherited_or_falsy:
  assumes "d \<notin> set (classes st)"
  shows "priorColor (updateColors st) d = Val Inherited \<or> \<not> truthy (priorColor (updateColors st) d)"
  using priorColor_updateColors_notin [OF assms] by auto

lemma priorColor_IGNORE_notin:
  assumes "''IGNORE'' \<notin> set (classes st)"
  shows "priorColor (updateColors st) ''IGNORE'' = Undefined"
  using assms
  by (simp add: priorColor_updateColors getProp_def colormap_loop_notin emptyObject_def
      IGNORE_not_inherited)

lemma fresh_after_update:
  assumes nd: "d \<notin> set (classes st)"
    and g: "d = ''IGNORE'' \<longrightarrow>
              Val (Str ''#CCC'') \<notin> priorColor (updateColors st) ` set (classes st)"
    and j: "j < length (classes st)"
    and nn: "classColors (addClass d (updateColors st)) ! j \<noteq> Null"
  shows "\<not> sameColor (classes st ! j) (classColors (addClass d (updateColors st)) ! j) d
            (classColors (addClass d (updateColors st)) ! length (classes st))"
proof -
  define s1 where "s1 = updateColors st"
  have cls1: "classes s1 = classes st" by (simp add: s1_def)
  have nd1: "d \<notin> set (classes s1)" using nd by (simp add: cls1)
  have j1: "j < length (classes s1)" using j by (simp add: cls1)
  have eq: "addClass d s1 = updateColors (s1\<lparr>classes := classes s1 @ [d]\<rparr>)"
    using nd1 by (rule addClass_new)
  have nn1: "classColors (updateColors (s1\<lparr>classes := classes s1 @ [d]\<rparr>)) ! j \<noteq> Null"
    using nn unfolding s1_def [symmetric] eq .
  have goal: "\<not> sameColor (classes s1 ! j)
             (classColors (updateColors (s1\<lparr>classes := classes s1 @ [d]\<rparr>)) ! j) d
             (classColors (updateColors (s1\<lparr>classes := classes s1 @ [d]\<rparr>)) ! length (classes s1))"
  proof (cases "priorColor s1 d = Val Inherited")
    case True
    from True nd1 j1 show ?thesis by (rule new_class_inherited)
  next
    case False
    with priorColor_Inherited_or_falsy [OF nd] have np: "\<not> truthy (priorColor s1 d)"
      by (simp add: s1_def)
    show ?thesis
    proof (cases "d = ''IGNORE''")
      case nI: False
      from np nI j1 nn1
      have "classColors (updateColors (s1\<lparr>classes := classes s1 @ [d]\<rparr>)) ! j
          \<noteq> classColors (updateColors (s1\<lparr>classes := classes s1 @ [d]\<rparr>)) ! length (classes s1)"
        by (rule new_class_color)
      then show ?thesis by (simp add: sameColor_def)
    next
      case I: True
      have ng: "priorColor s1 c \<noteq> Val (Str ''#CCC'')" if "c \<in> set (classes s1)" for c
        using that g I unfolding s1_def [symmetric] cls1 [symmetric] by force
      have nd2: "''IGNORE'' \<notin> set (classes s1)" using nd1 I by simp
      have a: "classColors (updateColors (s1\<lparr>classes := classes s1 @ [d]\<rparr>)) ! j \<noteq> Val (Str ''#CCC'')"
        using new_class_IGNORE [OF nd2 ng j1] unfolding I .
      have "length (classes s1) < length (classes (s1\<lparr>classes := classes s1 @ [d]\<rparr>))" by simp
      from updateColors_at [OF this]
      have b: "classColors (updateColors (s1\<lparr>classes := classes s1 @ [d]\<rparr>)) ! length (classes s1)
               = Val (Str ''#CCC'')"
        using np I by (simp add: chosen_def kept_def priorColor_def)
      from a b show ?thesis by (simp add: sameColor_def)
    qed
  qed
  then have "\<not> sameColor (classes s1 ! j) (classColors (addClass d s1) ! j) d
            (classColors (addClass d s1) ! length (classes s1))"
    unfolding eq .
  then have "\<not> sameColor (classes st ! j) (classColors (addClass d s1) ! j) d
            (classColors (addClass d s1) ! length (classes st))"
    unfolding cls1 .
  then show ?thesis unfolding s1_def .
qed

text \<open>
  C5, as the code has it.

  (a) When the class list has no duplicate name, and the class named \<^verbatim>\<open>__proto__\<close>, if
  there is one, was not given a string as its colour, a second \<^verbatim>\<open>updateColors\<close> leaves
  \<^verbatim>\<open>classColors\<close> and \<^verbatim>\<open>classColormap\<close> as the first left them. (The assignment
  \<^verbatim>\<open>classColormap['__proto__'] = colour\<close> does not store a string, and the next read
  gives \<^verbatim>\<open>Object.prototype\<close>.)

  (b) \<^verbatim>\<open>removeClass c\<close> for a class \<open>c\<close> of the list leaves the other classes. When
  \<^verbatim>\<open>addClass d\<close> then adds a class \<open>d\<close> that is not in the list, \<open>d\<close> is appended, and
  its colour differs from the colour of every remaining class, unless both are left
  without a colour (\<^verbatim>\<open>null\<close>); for \<open>d\<close> named \<^verbatim>\<open>IGNORE\<close>, provided that after the
  removal \<^verbatim>\<open>classColormap\<close> maps no remaining class to the grey \<^verbatim>\<open>#CCC\<close>.
\<close>

theorem updateColors_stable_and_fresh:
  "(distinct (classes st)
    \<and> (\<forall>i < length (classes st). classes st ! i = ''__proto__'' \<longrightarrow>
          (\<forall>s. classColors (updateColors st) ! i \<noteq> Val (Str s))) \<longrightarrow>
      classColors (updateColors (updateColors st)) = classColors (updateColors st)
      \<and> classColormap (updateColors (updateColors st)) = classColormap (updateColors st))
   \<and> classes (removeClass c st) = remove1 c (classes st)
   \<and> (c \<in> set (classes st) \<and> d \<notin> set (classes (removeClass c st))
      \<and> (d = ''IGNORE'' \<longrightarrow>
            Val (Str ''#CCC'')
              \<notin> priorColor (removeClass c st) ` set (classes (removeClass c st))) \<longrightarrow>
      classes (addClass d (removeClass c st)) = classes (removeClass c st) @ [d]
      \<and> (\<forall>j < length (classes (removeClass c st)).
            \<not> (classColors (addClass d (removeClass c st)) ! j = Null
               \<and> classColors (addClass d (removeClass c st))
                    ! length (classes (removeClass c st)) = Null) \<longrightarrow>
            \<not> sameColor (classes (removeClass c st) ! j)
                (classColors (addClass d (removeClass c st)) ! j)
                d
                (classColors (addClass d (removeClass c st))
                   ! length (classes (removeClass c st)))))"
proof (intro conjI impI allI)
  assume a: "distinct (classes st)
    \<and> (\<forall>i < length (classes st). classes st ! i = ''__proto__'' \<longrightarrow>
          (\<forall>s. classColors (updateColors st) ! i \<noteq> Val (Str s)))"
  then have d: "distinct (classes st)"
    and h: "\<And>j. j < length (classes st) \<Longrightarrow> classes st ! j = ''__proto__'' \<Longrightarrow>
              \<forall>s. classColors (updateColors st) ! j \<noteq> Val (Str s)"
    by blast+
  from d h show "classColors (updateColors (updateColors st)) = classColors (updateColors st)"
    by (rule updateColors_again(1))
  from d h show "classColormap (updateColors (updateColors st)) = classColormap (updateColors st)"
    by (rule updateColors_again(2))
next
  show "classes (removeClass c st) = remove1 c (classes st)"
    by (rule removeClass_classes)
next
  assume h: "c \<in> set (classes st) \<and> d \<notin> set (classes (removeClass c st))
      \<and> (d = ''IGNORE'' \<longrightarrow>
            Val (Str ''#CCC'')
              \<notin> priorColor (removeClass c st) ` set (classes (removeClass c st)))"
  from h show "classes (addClass d (removeClass c st)) = classes (removeClass c st) @ [d]"
    by (simp add: addClass_new)
  fix j
  assume j: "j < length (classes (removeClass c st))"
    and nn: "\<not> (classColors (addClass d (removeClass c st)) ! j = Null
               \<and> classColors (addClass d (removeClass c st))
                    ! length (classes (removeClass c st)) = Null)"
  show "\<not> sameColor (classes (removeClass c st) ! j)
                (classColors (addClass d (removeClass c st)) ! j)
                d
                (classColors (addClass d (removeClass c st))
                   ! length (classes (removeClass c st)))"
  proof (cases "classColors (addClass d (removeClass c st)) ! j = Null")
    case True
    with nn show ?thesis by (simp add: sameColor_def)
  next
    case False
    from h obtain st' where st': "removeClass c st = updateColors st'"
      using removeClass_is_updateColors by blast
    from h have nd: "d \<notin> set (classes st')" by (simp add: st')
    from h have g: "d = ''IGNORE'' \<longrightarrow>
              Val (Str ''#CCC'') \<notin> priorColor (updateColors st') ` set (classes st')"
      by (simp add: st')
    from j have j': "j < length (classes st')" by (simp add: st')
    from False have nn': "classColors (addClass d (updateColors st')) ! j \<noteq> Null"
      unfolding st' .
    from fresh_after_update [OF nd g j' nn'] show ?thesis
      by (simp add: st')
  qed
qed

theorem updateColors_stable_and_fresh_witness:
  "distinct (classes three_classes)
   \<and> ''__proto__'' \<notin> set (classes three_classes)
   \<and> classColors (updateColors (updateColors three_classes)) = classColors (updateColors three_classes)
   \<and> classColormap (updateColors (updateColors three_classes)) = classColormap (updateColors three_classes)
   \<and> ''A'' \<in> set (classes three_classes)
   \<and> ''C'' \<notin> set (classes (removeClass ''A'' three_classes))
   \<and> classes (addClass ''C'' (removeClass ''A'' three_classes)) = [''IGNORE'', ''B'', ''C'']
   \<and> classColors (addClass ''C'' (removeClass ''A'' three_classes)) ! 0 \<noteq> Null
   \<and> \<not> sameColor ''IGNORE'' (classColors (addClass ''C'' (removeClass ''A'' three_classes)) ! 0)
         ''C'' (classColors (addClass ''C'' (removeClass ''A'' three_classes)) ! 2)
   \<and> classColors (addClass ''C'' (removeClass ''A'' three_classes)) ! 1 \<noteq> Null
   \<and> \<not> sameColor ''B'' (classColors (addClass ''C'' (removeClass ''A'' three_classes)) ! 1)
         ''C'' (classColors (addClass ''C'' (removeClass ''A'' three_classes)) ! 2)
   \<and> ''IGNORE'' \<in> set (classes three_classes)
   \<and> ''IGNORE'' \<notin> set (classes (removeClass ''IGNORE'' three_classes))
   \<and> Val (Str ''#CCC'')
        \<notin> priorColor (removeClass ''IGNORE'' three_classes)
            ` set (classes (removeClass ''IGNORE'' three_classes))
   \<and> classes (addClass ''IGNORE'' (removeClass ''IGNORE'' three_classes)) = [''A'', ''B'', ''IGNORE'']
   \<and> classColors (addClass ''IGNORE'' (removeClass ''IGNORE'' three_classes)) ! 0 \<noteq> Null
   \<and> \<not> sameColor ''A'' (classColors (addClass ''IGNORE'' (removeClass ''IGNORE'' three_classes)) ! 0)
         ''IGNORE'' (classColors (addClass ''IGNORE'' (removeClass ''IGNORE'' three_classes)) ! 2)
   \<and> classColors (addClass ''IGNORE'' (removeClass ''IGNORE'' three_classes)) ! 1 \<noteq> Null
   \<and> \<not> sameColor ''B'' (classColors (addClass ''IGNORE'' (removeClass ''IGNORE'' three_classes)) ! 1)
         ''IGNORE'' (classColors (addClass ''IGNORE'' (removeClass ''IGNORE'' three_classes)) ! 2)"
proof -
  let ?s1 = "removeClass ''A'' three_classes"
  let ?s2 = "addClass ''C'' ?s1"
  let ?t1 = "removeClass ''IGNORE'' three_classes"
  let ?t2 = "addClass ''IGNORE'' ?t1"
  have cls: "classes three_classes = [''IGNORE'', ''A'', ''B'']"
    by (simp add: three_classes_def)
  have dist: "distinct (classes three_classes)" and np: "''__proto__'' \<notin> set (classes three_classes)"
    and inA: "''A'' \<in> set (classes three_classes)" and inI: "''IGNORE'' \<in> set (classes three_classes)"
    by (simp_all add: cls)
  from np have H: "\<forall>i < length (classes three_classes). classes three_classes ! i = ''__proto__'' \<longrightarrow>
          (\<forall>s. classColors (updateColors three_classes) ! i \<noteq> Val (Str s))"
    by (metis nth_mem)
  note T = updateColors_stable_and_fresh [of three_classes "''A''" "''C''"]
  note T' = updateColors_stable_and_fresh [of three_classes "''IGNORE''" "''IGNORE''"]
  note a = T [THEN conjunct1, THEN mp, OF conjI [OF dist H]]
  have rm: "classes ?s1 = [''IGNORE'', ''B'']"
    using T [THEN conjunct2, THEN conjunct1] by (simp add: cls)
  have rm': "classes ?t1 = [''A'', ''B'']"
    using T' [THEN conjunct2, THEN conjunct1] by (simp add: cls)
  have nC: "''C'' \<notin> set (classes ?s1)" and nI: "''IGNORE'' \<notin> set (classes ?t1)"
    by (simp_all add: rm rm')
  have g: "''C'' = ''IGNORE'' \<longrightarrow> Val (Str ''#CCC'') \<notin> priorColor ?s1 ` set (classes ?s1)"
    by simp
  have grey: "Val (Str ''#CCC'') \<notin> priorColor ?t1 ` set (classes ?t1)"
    by code_simp
  then have g': "''IGNORE'' = ''IGNORE'' \<longrightarrow> Val (Str ''#CCC'') \<notin> priorColor ?t1 ` set (classes ?t1)"
    by simp
  note b = T [THEN conjunct2, THEN conjunct2, THEN mp, OF conjI [OF inA conjI [OF nC g]]]
  note b' = T' [THEN conjunct2, THEN conjunct2, THEN mp, OF conjI [OF inI conjI [OF nI g']]]
  have nn: "classColors ?s2 ! 0 \<noteq> Null" "classColors ?s2 ! 1 \<noteq> Null"
    "classColors ?t2 ! 0 \<noteq> Null" "classColors ?t2 ! 1 \<noteq> Null"
    by code_simp+
  have c2: "classes ?s2 = [''IGNORE'', ''B'', ''C'']"
    using b [THEN conjunct1] by (simp add: rm)
  have c2': "classes ?t2 = [''A'', ''B'', ''IGNORE'']"
    using b' [THEN conjunct1] by (simp add: rm')
  have d0: "\<not> sameColor ''IGNORE'' (classColors ?s2 ! 0) ''C'' (classColors ?s2 ! 2)"
    using b [THEN conjunct2, THEN spec, of 0] nn(1) by (simp add: rm numeral_2_eq_2)
  have d1: "\<not> sameColor ''B'' (classColors ?s2 ! 1) ''C'' (classColors ?s2 ! 2)"
    using b [THEN conjunct2, THEN spec, of 1] nn(2) by (simp add: rm numeral_2_eq_2)
  have d0': "\<not> sameColor ''A'' (classColors ?t2 ! 0) ''IGNORE'' (classColors ?t2 ! 2)"
    using b' [THEN conjunct2, THEN spec, of 0] nn(3) by (simp add: rm' numeral_2_eq_2)
  have d1': "\<not> sameColor ''B'' (classColors ?t2 ! 1) ''IGNORE'' (classColors ?t2 ! 2)"
    using b' [THEN conjunct2, THEN spec, of 1] nn(4) by (simp add: rm' numeral_2_eq_2)
  show ?thesis
    by (intro conjI dist np a [THEN conjunct1] a [THEN conjunct2] inA nC c2 nn d0 d1
        inI nI grey c2' d0' d1')
qed

text \<open>
  Four runs that the statement above excludes.
  \<^item> The class list \<^verbatim>\<open>A, A, B, C\<close>, with \<^verbatim>\<open>B\<close> mapped to \<^verbatim>\<open>#CCC\<close>: the first \<^verbatim>\<open>A\<close> changes
    colour when \<^verbatim>\<open>updateColors\<close> runs again on the unchanged list.
  \<^item> The single class \<^verbatim>\<open>__proto__\<close> and no \<^verbatim>\<open>classColormap\<close> yet: the first run gives it
    the first palette colour, the second run the inherited object.
  \<^item> The class list \<^verbatim>\<open>B, C\<close>, with \<^verbatim>\<open>B\<close> mapped to \<^verbatim>\<open>#CCC\<close>: after \<^verbatim>\<open>C\<close> is removed and
    the new class \<^verbatim>\<open>IGNORE\<close> is added, \<^verbatim>\<open>IGNORE\<close> gets the grey that \<^verbatim>\<open>B\<close> has kept.
  \<^item> The 22 classes with \<^verbatim>\<open>constructor\<close> removed and the new class \<^verbatim>\<open>x\<close> added: the 20
    colours of the palette are in use, and both the remaining class \<^verbatim>\<open>c21\<close> and \<^verbatim>\<open>x\<close>
    are left without a colour.
\<close>

theorem updateColors_stable_and_fresh_counterexample:
  "classes dup_classes = [''A'', ''A'', ''B'', ''C'']
   \<and> classColors (updateColors dup_classes) ! 0 = Val (Str ''#a6cee3'')
   \<and> classColors (updateColors (updateColors dup_classes)) ! 0 = Val (Str ''#b2df8a'')
   \<and> classes proto_class = [''__proto__'']
   \<and> classColors (updateColors proto_class) = [Val (Str ''#a6cee3'')]
   \<and> classColors (updateColors (updateColors proto_class)) = [Val Inherited]
   \<and> ''C'' \<in> set (classes grey_classes)
   \<and> classes (removeClass ''C'' grey_classes) = [''B'']
   \<and> priorColor (removeClass ''C'' grey_classes) ''B'' = Val (Str ''#CCC'')
   \<and> classes (addClass ''IGNORE'' (removeClass ''C'' grey_classes)) = [''B'', ''IGNORE'']
   \<and> classColors (addClass ''IGNORE'' (removeClass ''C'' grey_classes))
       = [Val (Str ''#CCC''), Val (Str ''#CCC'')]
   \<and> ''constructor'' \<in> set (classes many_classes)
   \<and> length (classes (removeClass ''constructor'' many_classes)) = 21
   \<and> classes (removeClass ''constructor'' many_classes) ! 20 = ''c21''
   \<and> length (classes (addClass ''x'' (removeClass ''constructor'' many_classes))) = 22
   \<and> classes (addClass ''x'' (removeClass ''constructor'' many_classes)) ! 21 = ''x''
   \<and> classColors (addClass ''x'' (removeClass ''constructor'' many_classes)) ! 20 = Null
   \<and> classColors (addClass ''x'' (removeClass ''constructor'' many_classes)) ! 21 = Null"
  by code_simp

subsection \<open>Labels and classes after removeClass\<close>

text \<open>
  C10. \<^verbatim>\<open>removeClass c\<close> leaves in the label index exactly the labels whose class is
  not \<open>c\<close>, in their order: every label of class \<open>c\<close> is removed and every other label
  stays. It takes the entry \<open>c\<close> (its first occurrence) out of the class list, so that
  \<open>c\<close> is no longer a class when the list had no duplicate.
\<close>

theorem removeClass_removes_labels_and_class:
  "labelsIndex (removeClass c st) = filter (\<lambda>l. className l \<noteq> c) (labelsIndex st)
   \<and> c \<notin> className ` set (labelsIndex (removeClass c st))
   \<and> classes (removeClass c st) = remove1 c (classes st)
   \<and> (distinct (classes st) \<longrightarrow> c \<notin> set (classes (removeClass c st)))"
  by (auto simp: removeClass_labelsIndex removeClass_classes)

theorem removeClass_removes_labels_and_class_witness:
  "distinct (classes labelled_store)
   \<and> labelsIndex (removeClass ''A'' labelled_store) =
       [\<lparr>timestampStart = 1, timestampEnd = 2, className = ''B'', state = 0,
         suggestionConfidence = 0, suggestionGeneration = 0\<rparr>]
   \<and> classes (removeClass ''A'' labelled_store) = [''IGNORE'', ''B'']
   \<and> ''A'' \<notin> set (classes (removeClass ''A'' labelled_store))"
  using removeClass_removes_labels_and_class [of "''A''" labelled_store]
  by (simp add: labelled_store_def)

subsection \<open>The getter alignedDataset\<close>

text \<open>
  C7. When the current tab is not \<^verbatim>\<open>labeling\<close>, the getter returns the cached dataset
  and leaves the store, the cached field included, as it is. When the tab is
  \<^verbatim>\<open>labeling\<close>, it returns \<^verbatim>\<open>makeNewAlignedDataset(tracks)\<close> for the current tracks and
  stores that dataset in the cached field.
\<close>

theorem alignedDataset_recomputed_only_in_labeling:
  "(tab \<noteq> ''labeling'' \<longrightarrow> alignedDataset mk tab trks st = (alignedDatasetField st, st))
   \<and> (tab = ''labeling'' \<longrightarrow>
        alignedDataset mk tab trks st
          = (Val (mk trks), st\<lparr>alignedDatasetField := Val (mk trks)\<rparr>))"
  by (simp add: alignedDataset_def Let_def)

theorem alignedDataset_recomputed_only_in_labeling_witness:
  "''alignment'' \<noteq> ''labeling''
   \<and> alignedDataset length ''alignment'' [(), ()] labelled_store = (Val 7, labelled_store)
   \<and> alignedDataset length ''labeling'' [(), ()] labelled_store
       = (Val 2, labelled_store\<lparr>alignedDatasetField := Val 2\<rparr>)"
  using alignedDataset_recomputed_only_in_labeling [of "''alignment''" length "[(), ()]" labelled_store]
    alignedDataset_recomputed_only_in_labeling [of "''labeling''" length "[(), ()]" labelled_store]
  by (simp add: labelled_store_def)

section \<open>Properties of the AlignmentView gestures\<close>

subsection \<open>Click or pan on a track\<close>

lemma panZoomCall_moved [simp]: "panZoomCall (g\<lparr>moved := b\<rparr>) = panZoomCall g"
  by (auto simp: panZoomCall_def fun_eq_iff Let_def)

lemma onTrackMouseMove_moved:
  "moved g \<Longrightarrow> onTrackMouseMove e g = Inr (g, [panZoomCall g e])"
proof -
  assume m: "moved g"
  then have "g\<lparr>moved := True\<rparr> = g" by simp
  with m show ?thesis by (simp add: onTrackMouseMove_def)
qed

lemma onTrackMouseMove_still:
  "\<not> moved g \<Longrightarrow> \<bar>clientX (snd e) - x0 g\<bar> < 3 \<Longrightarrow> onTrackMouseMove e g = Inr (g, [])"
  by (simp add: onTrackMouseMove_def)

lemma onTrackMouseMove_far:
  "\<bar>clientX (snd e) - x0 g\<bar> \<ge> 3 \<Longrightarrow>
   onTrackMouseMove e g = Inr (g\<lparr>moved := True\<rparr>, [panZoomCall g e])"
  by (simp add: onTrackMouseMove_def)

lemma track_moves_moved:
  "moved g \<Longrightarrow> dragMoves onTrackMouseMove ms g = Inr (g, map (panZoomCall g) ms)"
  by (induction ms) (simp_all add: onTrackMouseMove_moved)

lemma track_moves_still:
  assumes "\<not> moved g" "\<forall>e \<in> set ms. \<bar>clientX (snd e) - x0 g\<bar> < 3"
  shows "dragMoves onTrackMouseMove ms g = Inr (g, [])"
  using assms by (induction ms) (simp_all add: onTrackMouseMove_still)

lemma track_moves_pan:
  assumes "\<not> moved g" "\<exists>e \<in> set ms. \<bar>clientX (snd e) - x0 g\<bar> \<ge> 3"
  shows "dragMoves onTrackMouseMove ms g =
           Inr (g\<lparr>moved := True\<rparr>,
                map (panZoomCall g) (dropWhile (\<lambda>e. \<bar>clientX (snd e) - x0 g\<bar> < 3) ms))"
  using assms
proof (induction ms)
  case Nil then show ?case by simp
next
  case (Cons e ms)
  show ?case
  proof (cases "\<bar>clientX (snd e) - x0 g\<bar> \<ge> 3")
    case True
    have "moved (g\<lparr>moved := True\<rparr>)" by simp
    from track_moves_moved [OF this, of ms] True show ?thesis
      by (simp add: onTrackMouseMove_far)
  next
    case False
    with Cons.prems have "\<exists>e \<in> set ms. \<bar>clientX (snd e) - x0 g\<bar> \<ge> 3" by auto
    from Cons.IH [OF Cons.prems(1) this] False Cons.prems(1) show ?thesis
      by (simp add: onTrackMouseMove_still)
  qed
qed

lemma panZoomCall_cases:
  "(\<exists>p. panZoomCall g e = SetReferenceTrackPanZoom p) \<or> (\<exists>t p. panZoomCall g e = SetTrackPanZoom t p)"
  by (cases e) (simp add: panZoomCall_def Let_def)

lemma dropWhile_nonempty: "\<exists>x \<in> set xs. \<not> P x \<Longrightarrow> dropWhile P xs \<noteq> []"
  by (induction xs) auto

text \<open>
  C9. A press on a track at a time within the bounds of its first time series starts a
  drag. If no move event of the gesture is 3 pixels or more away, horizontally, from the
  press, the gesture makes exactly two store calls, on release: \<^verbatim>\<open>addMarker\<close> of a new
  marker at the clicked time on that track, and \<^verbatim>\<open>selectMarker\<close> of that marker; no
  pan-zoom setter is called. If some move event is 3 pixels or more away, the gesture
  calls a pan-zoom setter for that move event and for every later one, and nothing
  else: no marker is added or selected on release.
\<close>

theorem click_creates_marker_drag_pans:
  assumes "timeSeries trk = ts0 # rest"
    and "ts_timestampStart ts0 \<le> time" and "time \<le> ts_timestampEnd ts0"
  shows "\<exists>g. onTrackMouseDown event trk time pps w = Inr (Some g)
     \<and> ((\<forall>e \<in> set ms. \<bar>clientX (snd e) - clientX event\<bar> < 3) \<longrightarrow>
          (\<exists>g'. startDragging onTrackMouseMove onTrackMouseUp ms fresh g
                 = Inr (g', [AddMarker \<lparr>ident = fresh, localTimestamp = time, track = trk\<rparr>,
                             SelectMarker \<lparr>ident = fresh, localTimestamp = time, track = trk\<rparr>])))
     \<and> ((\<exists>e \<in> set ms. \<bar>clientX (snd e) - clientX event\<bar> \<ge> 3) \<longrightarrow>
          (\<exists>g' cs. startDragging onTrackMouseMove onTrackMouseUp ms fresh g = Inr (g', cs)
              \<and> cs = map (panZoomCall g) (dropWhile (\<lambda>e. \<bar>clientX (snd e) - clientX event\<bar> < 3) ms)
              \<and> cs \<noteq> []
              \<and> (\<forall>c \<in> set cs. (\<exists>p. c = SetReferenceTrackPanZoom p) \<or> (\<exists>t p. c = SetTrackPanZoom t p))
              \<and> (\<forall>m. AddMarker m \<notin> set cs \<and> SelectMarker m \<notin> set cs)))"
proof -
  define g where "g = \<lparr>dragTrack = trk, dragTime = time, dragPps = pps, x0 = clientX event,
      dragRangeStart = trackRangeStart w trk, dragReferenceRangeStart = referenceRangeStart w,
      moved = False\<rparr>"
  have down: "onTrackMouseDown event trk time pps w = Inr (Some g)"
    using assms by (simp add: onTrackMouseDown_def g_def)
  have nm: "\<not> moved g" and x: "x0 g = clientX event"
    and gt: "dragTime g = time" "dragTrack g = trk"
    by (simp_all add: g_def)
  have click: "\<exists>g'. startDragging onTrackMouseMove onTrackMouseUp ms fresh g
                 = Inr (g', [AddMarker \<lparr>ident = fresh, localTimestamp = time, track = trk\<rparr>,
                             SelectMarker \<lparr>ident = fresh, localTimestamp = time, track = trk\<rparr>])"
    if "\<forall>e \<in> set ms. \<bar>clientX (snd e) - clientX event\<bar> < 3"
    using track_moves_still [OF nm, of ms] that nm
    by (simp add: x gt startDragging_def onTrackMouseUp_def Let_def)
  have pan: "\<exists>g' cs. startDragging onTrackMouseMove onTrackMouseUp ms fresh g = Inr (g', cs)
              \<and> cs = map (panZoomCall g) (dropWhile (\<lambda>e. \<bar>clientX (snd e) - clientX event\<bar> < 3) ms)
              \<and> cs \<noteq> []
              \<and> (\<forall>c \<in> set cs. (\<exists>p. c = SetReferenceTrackPanZoom p) \<or> (\<exists>t p. c = SetTrackPanZoom t p))
              \<and> (\<forall>m. AddMarker m \<notin> set cs \<and> SelectMarker m \<notin> set cs)"
    if ex: "\<exists>e \<in> set ms. \<bar>clientX (snd e) - clientX event\<bar> \<ge> 3"
  proof -
    let ?cs = "map (panZoomCall g) (dropWhile (\<lambda>e. \<bar>clientX (snd e) - clientX event\<bar> < 3) ms)"
    from ex have ex': "\<exists>e \<in> set ms. \<bar>clientX (snd e) - x0 g\<bar> \<ge> 3" by (simp add: x)
    have run: "startDragging onTrackMouseMove onTrackMouseUp ms fresh g = Inr (g\<lparr>moved := True\<rparr>, ?cs)"
      using track_moves_pan [OF nm ex'] by (simp add: x startDragging_def onTrackMouseUp_def)
    from ex have "\<exists>e \<in> set ms. \<not> \<bar>clientX (snd e) - clientX event\<bar> < 3" by (auto simp: not_less)
    then have ne: "?cs \<noteq> []" using dropWhile_nonempty by fastforce
    have kinds: "\<forall>c \<in> set ?cs. (\<exists>p. c = SetReferenceTrackPanZoom p) \<or> (\<exists>t p. c = SetTrackPanZoom t p)"
      using panZoomCall_cases by auto
    then have none: "\<forall>m. AddMarker m \<notin> set ?cs \<and> SelectMarker m \<notin> set ?cs" by blast
    from run ne kinds none show ?thesis by blast
  qed
  from down click pan show ?thesis by blast
qed




theorem click_creates_marker_drag_pans_witness:
  "timeSeries track_a = [\<lparr>ts_timestampStart = 0, ts_timestampEnd = 10\<rparr>]
   \<and> (0::real) \<le> 5 \<and> (5::real) \<le> 10
   \<and> (\<exists>g g'. onTrackMouseDown (mouseAt 100) track_a 5 2 ex_world = Inr (Some g)
         \<and> startDragging onTrackMouseMove onTrackMouseUp
              [(ex_world, mouseAt 101), (ex_world, mouseAt 102)] 7 g
            = Inr (g', [AddMarker \<lparr>ident = 7, localTimestamp = 5, track = track_a\<rparr>,
                        SelectMarker \<lparr>ident = 7, localTimestamp = 5, track = track_a\<rparr>]))
   \<and> (\<exists>g g'. onTrackMouseDown (mouseAt 100) track_a 5 2 ex_world = Inr (Some g)
         \<and> startDragging onTrackMouseMove onTrackMouseUp
              [(ex_world, mouseAt 101), (ex_world, mouseAt 104), (ex_world, mouseAt 100)] 7 g
            = Inr (g', [SetTrackPanZoom track_a \<lparr>rangeStart = Some (- 2), pixelsPerSecond = Val 2\<rparr>,
                        SetTrackPanZoom track_a \<lparr>rangeStart = Some 0, pixelsPerSecond = Val 2\<rparr>]))"
proof -
  have h1: "timeSeries track_a = \<lparr>ts_timestampStart = 0, ts_timestampEnd = 10\<rparr> # []"
    by (simp add: track_a_def)
  have h2: "ts_timestampStart \<lparr>ts_timestampStart = 0, ts_timestampEnd = 10\<rparr> \<le> (5::real)"
    and h3: "(5::real) \<le> ts_timestampEnd \<lparr>ts_timestampStart = 0, ts_timestampEnd = 10\<rparr>"
    by simp_all
  note T = click_creates_marker_drag_pans [OF h1 h2 h3]
  have still: "\<forall>e \<in> set [(ex_world, mouseAt 101), (ex_world, mouseAt 102)].
                 \<bar>clientX (snd e) - clientX (mouseAt 100)\<bar> < 3"
    by (simp add: mouseAt_def)
  have far: "\<exists>e \<in> set [(ex_world, mouseAt 101), (ex_world, mouseAt 104), (ex_world, mouseAt 100)].
                 \<bar>clientX (snd e) - clientX (mouseAt 100)\<bar> \<ge> 3"
    by (simp add: mouseAt_def)
  from T [of "mouseAt 100" 2 ex_world "[(ex_world, mouseAt 101), (ex_world, mouseAt 102)]" 7] still
  have click: "\<exists>g g'. onTrackMouseDown (mouseAt 100) track_a 5 2 ex_world = Inr (Some g)
         \<and> startDragging onTrackMouseMove onTrackMouseUp
              [(ex_world, mouseAt 101), (ex_world, mouseAt 102)] 7 g
            = Inr (g', [AddMarker \<lparr>ident = 7, localTimestamp = 5, track = track_a\<rparr>,
                        SelectMarker \<lparr>ident = 7, localTimestamp = 5, track = track_a\<rparr>])"
    by blast
  from T [of "mouseAt 100" 2 ex_world
      "[(ex_world, mouseAt 101), (ex_world, mouseAt 104), (ex_world, mouseAt 100)]" 7] far
  obtain g g' where down: "onTrackMouseDown (mouseAt 100) track_a 5 2 ex_world = Inr (Some g)"
    and run: "startDragging onTrackMouseMove onTrackMouseUp
              [(ex_world, mouseAt 101), (ex_world, mouseAt 104), (ex_world, mouseAt 100)] 7 g
            = Inr (g', map (panZoomCall g)
                 (dropWhile (\<lambda>e. \<bar>clientX (snd e) - clientX (mouseAt 100)\<bar> < 3)
                    [(ex_world, mouseAt 101), (ex_world, mouseAt 104), (ex_world, mouseAt 100)]))"
    by blast
  from down have g: "g = \<lparr>dragTrack = track_a, dragTime = 5, dragPps = 2, x0 = 100,
      dragRangeStart = 0, dragReferenceRangeStart = 0, moved = False\<rparr>"
    by (simp add: onTrackMouseDown_def track_a_def mouseAt_def ex_world_def)
  have "map (panZoomCall g)
          (dropWhile (\<lambda>e. \<bar>clientX (snd e) - clientX (mouseAt 100)\<bar> < 3)
             [(ex_world, mouseAt 101), (ex_world, mouseAt 104), (ex_world, mouseAt 100)])
        = [SetTrackPanZoom track_a \<lparr>rangeStart = Some (- 2), pixelsPerSecond = Val 2\<rparr>,
           SetTrackPanZoom track_a \<lparr>rangeStart = Some 0, pixelsPerSecond = Val 2\<rparr>]"
    by (simp add: g panZoomCall_def jsDivide_def mouseAt_def track_a_def Let_def)
  with down run have pan: "\<exists>g g'. onTrackMouseDown (mouseAt 100) track_a 5 2 ex_world = Inr (Some g)
         \<and> startDragging onTrackMouseMove onTrackMouseUp
              [(ex_world, mouseAt 101), (ex_world, mouseAt 104), (ex_world, mouseAt 100)] 7 g
            = Inr (g', [SetTrackPanZoom track_a \<lparr>rangeStart = Some (- 2), pixelsPerSecond = Val 2\<rparr>,
                        SetTrackPanZoom track_a \<lparr>rangeStart = Some 0, pixelsPerSecond = Val 2\<rparr>])"
    by auto
  from h1 click pan show ?thesis by simp
qed

subsection \<open>Creating a correspondence\<close>

lemma correspondenceMove_step:
  assumes "markerStart v = Val marker"
  shows "\<exists>v'. correspondenceMove marker e v = Inr (v', [])
      \<and> markerStart v' = Val marker \<and> candidateOK marker e (markerTarget v')"
proof (cases "findCandidateMarker (fst e) (snd e)")
  case Undefined
  with assms show ?thesis by (simp add: correspondenceMove_def candidateOK_def)
next
  case Null
  with assms show ?thesis by (simp add: correspondenceMove_def candidateOK_def)
next
  case (Val c)
  have adj: "(trackIndex (fst e) c = trackIndex (fst e) marker - 1
              \<or> trackIndex (fst e) c = trackIndex (fst e) marker + 1)
             \<longleftrightarrow> \<bar>trackIndex (fst e) c - trackIndex (fst e) marker\<bar> = 1"
    by arith
  show ?thesis
  proof (cases "ident c = ident marker")
    case True
    with Val assms show ?thesis by (simp add: correspondenceMove_def candidateOK_def)
  next
    case False
    with Val assms adj show ?thesis by (simp add: correspondenceMove_def candidateOK_def Let_def)
  qed
qed

lemma dragMoves_snoc:
  "dragMoves move (ms @ [e]) s =
     (case dragMoves move ms s of
        Inl err \<Rightarrow> Inl err
      | Inr (s1, cs1) \<Rightarrow>
          (case move e s1 of
             Inl err \<Rightarrow> Inl err
           | Inr (s2, cs2) \<Rightarrow> Inr (s2, cs1 @ cs2)))"
  by (induction ms arbitrary: s) (auto split: sum.splits)

lemma correspondence_moves_run:
  assumes "markerStart v = Val marker"
  shows "\<exists>v'. dragMoves (correspondenceMove marker) ms v = Inr (v', [])
      \<and> markerStart v' = Val marker"
  using assms
proof (induction ms arbitrary: v)
  case Nil
  then show ?case by simp
next
  case (Cons e ms)
  from correspondenceMove_step [OF Cons.prems, of e]
  obtain v1 where step: "correspondenceMove marker e v = Inr (v1, [])"
    and s1: "markerStart v1 = Val marker"
    by blast
  from Cons.IH [OF s1]
  obtain v' where "dragMoves (correspondenceMove marker) ms v1 = Inr (v', [])"
    and "markerStart v' = Val marker"
    by blast
  with step show ?case by simp
qed

lemma correspondence_moves_last:
  assumes "markerStart v = Val marker" "ms \<noteq> []"
  shows "\<exists>v'. dragMoves (correspondenceMove marker) ms v = Inr (v', [])
      \<and> candidateOK marker (last ms) (markerTarget v')"
proof -
  from assms(2) have ms: "ms = butlast ms @ [last ms]" by simp
  from correspondence_moves_run [OF assms(1), of "butlast ms"]
  obtain v1 where run1: "dragMoves (correspondenceMove marker) (butlast ms) v = Inr (v1, [])"
    and s1: "markerStart v1 = Val marker"
    by blast
  from correspondenceMove_step [OF s1, of "last ms"]
  obtain v' where step: "correspondenceMove marker (last ms) v1 = Inr (v', [])"
    and ok: "candidateOK marker (last ms) (markerTarget v')"
    by blast
  have "dragMoves (correspondenceMove marker) (butlast ms @ [last ms]) v = Inr (v', [])"
    by (simp add: dragMoves_snoc run1 step)
  with ms ok show ?thesis by metis
qed


lemma correspondenceUp_Null:
  "markerTarget v = Null \<Longrightarrow> \<exists>v'. correspondenceUp marker () v = Inr (v', [])"
  by (simp add: correspondenceUp_def)

text \<open>
  C8. After a press on a knob of \<open>marker\<close> and any sequence \<open>ms\<close> of move events, the
  move callbacks have run without an exception and without a store call, and the
  candidate \<^verbatim>\<open>markerTarget\<close> is not \<open>marker\<close> itself; when it is a marker, it is the
  marker under the last move event, and its track's index in \<^verbatim>\<open>projectStore.tracks\<close>
  differs from the index of \<open>marker\<close>'s track by exactly 1 (\<^verbatim>\<open>indexOf\<close> gives \<open>-1\<close> for a
  track that is not in the list, such as the reference track). When the last move event
  is over a marker whose track index does not differ by exactly 1, the candidate is
  \<^verbatim>\<open>null\<close>. On release with a \<^verbatim>\<open>null\<close> candidate no store call is made: no
  correspondence is added.
\<close>

theorem correspondence_candidate_adjacent_only:
  "\<exists>v. dragMoves (correspondenceMove marker) ms
           (fst (startCreatingCorrespondence marker knob v0)) = Inr (v, [])
     \<and> \<not> strictEq (markerTarget v) (Val marker)
     \<and> (\<forall>c. markerTarget v = Val c \<longrightarrow>
           ms \<noteq> []
           \<and> findCandidateMarker (fst (last ms)) (snd (last ms)) = Val c
           \<and> \<bar>trackIndex (fst (last ms)) c - trackIndex (fst (last ms)) marker\<bar> = 1)
     \<and> (\<forall>c. ms \<noteq> [] \<and> findCandidateMarker (fst (last ms)) (snd (last ms)) = Val c
             \<and> \<bar>trackIndex (fst (last ms)) c - trackIndex (fst (last ms)) marker\<bar> \<noteq> 1 \<longrightarrow>
           markerTarget v = Null)
     \<and> (markerTarget v = Null \<longrightarrow>
           (\<exists>v'. correspondenceUp marker () v = Inr (v', []))
           \<and> (\<exists>v'. startDragging (correspondenceMove marker) (correspondenceUp marker) ms ()
                      (fst (startCreatingCorrespondence marker knob v0)) = Inr (v', [])))"
proof -
  define v1 where "v1 = fst (startCreatingCorrespondence marker knob v0)"
  have s1: "markerStart v1 = Val marker" and t1: "markerTarget v1 = Null"
    by (simp_all add: v1_def startCreatingCorrespondence_def)
  have fin: "\<exists>v'. startDragging (correspondenceMove marker) (correspondenceUp marker) ms () v1
                   = Inr (v', [])"
    if run: "dragMoves (correspondenceMove marker) ms v1 = Inr (v, [])"
      and n: "markerTarget v = Null" for v
  proof -
    from correspondenceUp_Null [OF n]
    obtain v' where "correspondenceUp marker () v = Inr (v', [])" by blast
    then show ?thesis by (simp add: startDragging_def run)
  qed
  show ?thesis
  proof (cases "ms = []")
    case True
    have run: "dragMoves (correspondenceMove marker) ms v1 = Inr (v1, [])"
      by (simp add: True)
    have a: "\<not> strictEq (markerTarget v1) (Val marker)" by (simp add: t1)
    have b: "\<forall>c. markerTarget v1 = Val c \<longrightarrow>
           ms \<noteq> []
           \<and> findCandidateMarker (fst (last ms)) (snd (last ms)) = Val c
           \<and> \<bar>trackIndex (fst (last ms)) c - trackIndex (fst (last ms)) marker\<bar> = 1"
      by (simp add: t1)
    have c: "\<forall>c. ms \<noteq> [] \<and> findCandidateMarker (fst (last ms)) (snd (last ms)) = Val c
             \<and> \<bar>trackIndex (fst (last ms)) c - trackIndex (fst (last ms)) marker\<bar> \<noteq> 1 \<longrightarrow>
           markerTarget v1 = Null"
      by (simp add: t1)
    have d: "markerTarget v1 = Null \<longrightarrow>
           (\<exists>v'. correspondenceUp marker () v1 = Inr (v', []))
           \<and> (\<exists>v'. startDragging (correspondenceMove marker) (correspondenceUp marker) ms ()
                      v1 = Inr (v', []))"
      using correspondenceUp_Null [OF t1] fin [OF run t1] by (intro impI conjI)
    show ?thesis
      unfolding v1_def [symmetric]
      by (rule exI [of _ v1]) (intro conjI run a b c d)
  next
    case False
    from correspondence_moves_last [OF s1 False]
    obtain v where run: "dragMoves (correspondenceMove marker) ms v1 = Inr (v, [])"
      and ok: "candidateOK marker (last ms) (markerTarget v)"
      by blast
    from ok have a: "\<not> strictEq (markerTarget v) (Val marker)"
      unfolding candidateOK_def by (elim conjE)
    from ok have b0: "\<forall>c. markerTarget v = Val c \<longrightarrow>
           findCandidateMarker (fst (last ms)) (snd (last ms)) = Val c
           \<and> \<bar>trackIndex (fst (last ms)) c - trackIndex (fst (last ms)) marker\<bar> = 1"
      unfolding candidateOK_def by (elim conjE)
    from ok have c0: "\<forall>c. findCandidateMarker (fst (last ms)) (snd (last ms)) = Val c
             \<and> \<bar>trackIndex (fst (last ms)) c - trackIndex (fst (last ms)) marker\<bar> \<noteq> 1 \<longrightarrow>
           markerTarget v = Null"
      unfolding candidateOK_def by (elim conjE)
    have b: "\<forall>c. markerTarget v = Val c \<longrightarrow>
           ms \<noteq> []
           \<and> findCandidateMarker (fst (last ms)) (snd (last ms)) = Val c
           \<and> \<bar>trackIndex (fst (last ms)) c - trackIndex (fst (last ms)) marker\<bar> = 1"
    proof (intro allI impI conjI)
      fix c assume t: "markerTarget v = Val c"
      show "ms \<noteq> []" by (rule False)
      from b0 t show "findCandidateMarker (fst (last ms)) (snd (last ms)) = Val c" by blast
      from b0 t show "\<bar>trackIndex (fst (last ms)) c - trackIndex (fst (last ms)) marker\<bar> = 1"
        by blast
    qed
    have c: "\<forall>c. ms \<noteq> [] \<and> findCandidateMarker (fst (last ms)) (snd (last ms)) = Val c
             \<and> \<bar>trackIndex (fst (last ms)) c - trackIndex (fst (last ms)) marker\<bar> \<noteq> 1 \<longrightarrow>
           markerTarget v = Null"
      using c0 by blast
    have d: "markerTarget v = Null \<longrightarrow>
           (\<exists>v'. correspondenceUp marker () v = Inr (v', []))
           \<and> (\<exists>v'. startDragging (correspondenceMove marker) (correspondenceUp marker) ms ()
                      v1 = Inr (v', []))"
    proof (intro impI conjI)
      assume n: "markerTarget v = Null"
      show "\<exists>v'. correspondenceUp marker () v = Inr (v', [])"
        by (rule correspondenceUp_Null [OF n])
      show "\<exists>v'. startDragging (correspondenceMove marker) (correspondenceUp marker) ms ()
                      v1 = Inr (v', [])"
        by (rule fin [OF run n])
    qed
    show ?thesis
      unfolding v1_def [symmetric]
      by (rule exI [of _ v]) (intro conjI run a b c d)
  qed
qed


theorem correspondence_candidate_adjacent_only_witness:
  "(\<exists>v. dragMoves (correspondenceMove marker_a) [(ex_world, hover 2), (ex_world, hover 1)]
           (fst (startCreatingCorrespondence marker_a Top initialViewState)) = Inr (v, [])
        \<and> markerTarget v = Val marker_b
        \<and> \<not> strictEq (Val marker_b) (Val marker_a)
        \<and> \<bar>trackIndex ex_world marker_b - trackIndex ex_world marker_a\<bar> = 1)
   \<and> (\<exists>v v'. dragMoves (correspondenceMove marker_a) [(ex_world, hover 1), (ex_world, hover 2)]
           (fst (startCreatingCorrespondence marker_a Top initialViewState)) = Inr (v, [])
        \<and> findCandidateMarker ex_world (hover 2) = Val marker_c
        \<and> \<bar>trackIndex ex_world marker_c - trackIndex ex_world marker_a\<bar> \<noteq> 1
        \<and> markerTarget v = Null
        \<and> startDragging (correspondenceMove marker_a) (correspondenceUp marker_a)
             [(ex_world, hover 1), (ex_world, hover 2)] ()
             (fst (startCreatingCorrespondence marker_a Top initialViewState)) = Inr (v', []))"
proof -
  let ?v1 = "fst (startCreatingCorrespondence marker_a Top initialViewState)"
  have f1: "findCandidateMarker ex_world (hover 1) = Val marker_b"
    and f2: "findCandidateMarker ex_world (hover 2) = Val marker_c"
    by (simp_all add: findCandidateMarker_def hover_def ex_world_def arrayGet_def)
  have ti: "trackIndex ex_world marker_a = 0" "trackIndex ex_world marker_b = 1"
    "trackIndex ex_world marker_c = 2"
    by (simp_all add: trackIndex_def ex_world_def marker_a_def marker_b_def marker_c_def
        track_a_def track_b_def track_c_def)
  have ids: "ident marker_a = 0" "ident marker_b = 1" "ident marker_c = 2"
    by (simp_all add: marker_a_def marker_b_def marker_c_def)
  have adj: "\<forall>v. dragMoves (correspondenceMove marker_a) [(ex_world, hover 2), (ex_world, hover 1)] ?v1
               = Inr (v, []) \<longrightarrow> markerTarget v = Val marker_b"
    by (simp add: correspondenceMove_def startCreatingCorrespondence_def f1 f2 ti ids Let_def)
  from correspondence_candidate_adjacent_only
    [of marker_a "[(ex_world, hover 2), (ex_world, hover 1)]" Top initialViewState]
  obtain v where run1: "dragMoves (correspondenceMove marker_a)
        [(ex_world, hover 2), (ex_world, hover 1)] ?v1 = Inr (v, [])"
    and a1: "\<not> strictEq (markerTarget v) (Val marker_a)"
    and b1: "\<forall>c. markerTarget v = Val c \<longrightarrow>
           [(ex_world, hover 2), (ex_world, hover 1)] \<noteq> []
           \<and> findCandidateMarker (fst (last [(ex_world, hover 2), (ex_world, hover 1)]))
                (snd (last [(ex_world, hover 2), (ex_world, hover 1)])) = Val c
           \<and> \<bar>trackIndex (fst (last [(ex_world, hover 2), (ex_world, hover 1)])) c
              - trackIndex (fst (last [(ex_world, hover 2), (ex_world, hover 1)])) marker_a\<bar> = 1"
    by blast
  from adj run1 have t1: "markerTarget v = Val marker_b" by blast
  from b1 t1 have "\<bar>trackIndex ex_world marker_b - trackIndex ex_world marker_a\<bar> = 1"
    by simp
  with run1 t1 a1 ids have part1: "\<exists>v. dragMoves (correspondenceMove marker_a)
           [(ex_world, hover 2), (ex_world, hover 1)] ?v1 = Inr (v, [])
        \<and> markerTarget v = Val marker_b
        \<and> \<not> strictEq (Val marker_b) (Val marker_a)
        \<and> \<bar>trackIndex ex_world marker_b - trackIndex ex_world marker_a\<bar> = 1"
    by auto
  from correspondence_candidate_adjacent_only
    [of marker_a "[(ex_world, hover 1), (ex_world, hover 2)]" Top initialViewState]
  obtain u where run2: "dragMoves (correspondenceMove marker_a)
        [(ex_world, hover 1), (ex_world, hover 2)] ?v1 = Inr (u, [])"
    and c2: "\<forall>c. [(ex_world, hover 1), (ex_world, hover 2)] \<noteq> []
             \<and> findCandidateMarker (fst (last [(ex_world, hover 1), (ex_world, hover 2)]))
                  (snd (last [(ex_world, hover 1), (ex_world, hover 2)])) = Val c
             \<and> \<bar>trackIndex (fst (last [(ex_world, hover 1), (ex_world, hover 2)])) c
                - trackIndex (fst (last [(ex_world, hover 1), (ex_world, hover 2)])) marker_a\<bar> \<noteq> 1 \<longrightarrow>
           markerTarget u = Null"
    and d2: "markerTarget u = Null \<longrightarrow>
           (\<exists>v'. correspondenceUp marker_a () u = Inr (v', []))
           \<and> (\<exists>v'. startDragging (correspondenceMove marker_a) (correspondenceUp marker_a)
                      [(ex_world, hover 1), (ex_world, hover 2)] () ?v1 = Inr (v', []))"
    by blast
  have far: "\<bar>trackIndex ex_world marker_c - trackIndex ex_world marker_a\<bar> \<noteq> 1"
    by (simp add: ti)
  from c2 [rule_format, of marker_c] f2 far have n: "markerTarget u = Null" by simp
  from d2 n obtain v' where "startDragging (correspondenceMove marker_a) (correspondenceUp marker_a)
                      [(ex_world, hover 1), (ex_world, hover 2)] () ?v1 = Inr (v', [])"
    by blast
  with run2 f2 far n have part2: "\<exists>v v'. dragMoves (correspondenceMove marker_a)
           [(ex_world, hover 1), (ex_world, hover 2)] ?v1 = Inr (v, [])
        \<and> findCandidateMarker ex_world (hover 2) = Val marker_c
        \<and> \<bar>trackIndex ex_world marker_c - trackIndex ex_world marker_a\<bar> \<noteq> 1
        \<and> markerTarget v = Null
        \<and> startDragging (correspondenceMove marker_a) (correspondenceUp marker_a)
             [(ex_world, hover 1), (ex_world, hover 2)] () ?v1 = Inr (v', [])"
    by blast
  from part1 part2 show ?thesis by (rule conjI)
qed

end
